theory Spec2Isabelle
  imports Complex_Main "HOL-Library.AList" "HOL-Library.Multiset"
begin

section \<open>Data model (shared schema)\<close>

text \<open>
  The server keeps every row in JavaScript \<open>Map\<close>s (\<open>MemStorage\<close>). A \<open>Map\<close> iterates in
  insertion order and \<open>set\<close> on a key that is present replaces the value in place, which is
  what \<open>AList.update\<close> does on an association list; \<open>Map.get\<close> is \<open>map_of\<close>.
  The participant map is keyed by the string \<open>`${gameId}-${userId}`\<close>; for integer ids this
  string determines the pair, so the key is modelled as the pair itself.

  JavaScript numbers are modelled exactly: ids, token counts and round numbers as \<open>int\<close>,
  durations and time budgets as \<open>rat\<close> (no rounding, no \<open>NaN\<close>, no infinities).
  Wall-clock values (\<open>Date.now()\<close>, \<open>new Date()\<close>) are reduced to "is set" flags and left
  out of the messages.
\<close>

datatype gameStatus = waiting | in_progress | completed

record user =
  username :: string
  displayName :: string

record game =
  id_g :: int
  createdById :: int
  status :: gameStatus
  currentRound :: int
  totalRounds :: int
  startingTimeBank :: rat
  isPublic :: bool
  hasBots :: bool
  startedAt :: bool
  endedAt :: bool
  maxHoldTimeLastRound :: rat
  roundWinnerId :: "int option"
  hostId :: "int option"

record insertGameParticipant =
  gameId :: int
  userId :: int
  isHost :: bool
  isReady :: bool
  timeBank :: "rat option"
  tokensWon :: int
  isEliminated :: bool
  isBot :: bool

record gameParticipant = insertGameParticipant +
  id_p :: int
  hasBidThisRound :: bool
  lastHoldTime :: rat

record gameRound =
  roundGameId :: int
  roundNumber :: int
  winnerId :: "int option"

datatype webSocket = WebSocket (sockId: nat) (readyStateOpen: bool)

record ranking =
  r_userId :: int
  r_username :: string
  r_displayName :: string
  tokens :: int
  timeRemaining :: rat

text \<open>Server-to-client messages (\<open>GameEvent\<close>). \<open>GAME_STATE\<close> carries the game row and the
  participant rows its snapshot is computed from.\<close>

datatype gameEvent =
    JOIN_GAME int int string string
  | GAME_STATE int game "gameParticipant list"
  | PLAYER_READY int int bool
  | GAME_STARTING int int
  | GAME_START int
  | ROUND_START int int
  | BUZZER_HOLD int int
  | BUZZER_RELEASE int int rat
  | ROUND_END int int int rat int
  | GAME_END int "ranking list"
  | PLAYER_LEFT int int
  | GAME_CANCELLED int
  | ERROR string

text \<open>Of the console output only the three lines that mark a round resolution are kept.\<close>

datatype logLine =
    AllActiveHaveBid_EndingRound int
  | RoundWinner int int int rat
  | NoActiveBidders int int

text \<open>What a handler does besides changing the stores, in program order: messages written
  to sockets, timers it arms, the console lines above, and the asynchronous calls it starts
  without awaiting them. \<open>broadcastToGame\<close> is never awaited by its callers: its send loop
  runs at the call, while the \<open>handleEmptyGame\<close> check and the \<open>GAME_STATE\<close> resync it starts
  run interleaved with whatever the caller does next. They are recorded as \<open>Detached\<close>
  tasks and run as steps of their own.\<close>

datatype task =
    Task_handleEmptyGame int
  | Task_sendGameState int int webSocket

datatype effect =
    Send webSocket gameEvent
  | Detached task
  | StartGameCountdown int
  | ScheduleRoundStart int int
  | ConsoleLog logLine

record state =
  users :: "(int \<times> user) list"
  games :: "(int \<times> game) list"
  gameParticipants :: "((int \<times> int) \<times> gameParticipant) list"
  gameRounds :: "(int \<times> gameRound) list"
  participantIdCounter :: int
  roundIdCounter :: int
  gameClients :: "(int \<times> (int \<times> webSocket) list) list"

section \<open>MemStorage\<close>

definition getUser :: "state \<Rightarrow> int \<Rightarrow> user option" where
  "getUser s u = map_of (users s) u"

definition getGame :: "state \<Rightarrow> int \<Rightarrow> game option" where
  "getGame s g = map_of (games s) g"

definition updateGameStatus :: "state \<Rightarrow> int \<Rightarrow> gameStatus \<Rightarrow> state" where
  "updateGameStatus s g st =
     (case map_of (games s) g of
        None \<Rightarrow> s
      | Some gm \<Rightarrow> s\<lparr>games := AList.update g (gm\<lparr>status := st\<rparr>) (games s)\<rparr>)"

definition setGameStartTime :: "state \<Rightarrow> int \<Rightarrow> state" where
  "setGameStartTime s g =
     (case map_of (games s) g of
        None \<Rightarrow> s
      | Some gm \<Rightarrow> s\<lparr>games := AList.update g (gm\<lparr>startedAt := True\<rparr>) (games s)\<rparr>)"

definition setGameEndTime :: "state \<Rightarrow> int \<Rightarrow> state" where
  "setGameEndTime s g =
     (case map_of (games s) g of
        None \<Rightarrow> s
      | Some gm \<Rightarrow> s\<lparr>games := AList.update g (gm\<lparr>endedAt := True\<rparr>) (games s)\<rparr>)"

definition getPublicGames :: "state \<Rightarrow> game list" where
  "getPublicGames s = filter (\<lambda>gm. isPublic gm \<and> status gm = waiting) (map snd (games s))"

text \<open>\<open>addParticipant\<close> spreads the insert row and adds the fresh row id. The per-round
  fields are not part of the insert row; they read as falsy until the first bid, modelled
  by \<open>False\<close> and \<open>0\<close>.\<close>

definition addParticipant :: "state \<Rightarrow> insertGameParticipant \<Rightarrow> state \<times> gameParticipant" where
  "addParticipant s ins =
     (let n = participantIdCounter s;
          participant = \<lparr>gameId = gameId ins, userId = userId ins, isHost = isHost ins,
             isReady = isReady ins, timeBank = timeBank ins, tokensWon = tokensWon ins,
             isEliminated = isEliminated ins, isBot = isBot ins,
             id_p = n, hasBidThisRound = False, lastHoldTime = 0\<rparr>;
          k = (gameId participant, userId participant)
      in (s\<lparr>participantIdCounter := n + 1,
            gameParticipants := AList.update k participant (gameParticipants s)\<rparr>,
          participant))"

definition getParticipant :: "state \<Rightarrow> int \<Rightarrow> int \<Rightarrow> gameParticipant option" where
  "getParticipant s g u = map_of (gameParticipants s) (g, u)"

definition getParticipantsByGame :: "state \<Rightarrow> int \<Rightarrow> gameParticipant list" where
  "getParticipantsByGame s g = filter (\<lambda>p. gameId p = g) (map snd (gameParticipants s))"

definition updateParticipantReadyStatus :: "state \<Rightarrow> int \<Rightarrow> int \<Rightarrow> bool \<Rightarrow> state" where
  "updateParticipantReadyStatus s g u b =
     (case map_of (gameParticipants s) (g, u) of
        None \<Rightarrow> s
      | Some p \<Rightarrow> s\<lparr>gameParticipants :=
                     AList.update (g, u) (p\<lparr>isReady := b\<rparr>) (gameParticipants s)\<rparr>)"

definition updateParticipantHostStatus :: "state \<Rightarrow> int \<Rightarrow> int \<Rightarrow> bool \<Rightarrow> state" where
  "updateParticipantHostStatus s g u b =
     (case map_of (gameParticipants s) (g, u) of
        None \<Rightarrow> s
      | Some p \<Rightarrow> s\<lparr>gameParticipants :=
                     AList.update (g, u) (p\<lparr>isHost := b\<rparr>) (gameParticipants s)\<rparr>)"

definition updateParticipantTimeBank :: "state \<Rightarrow> int \<Rightarrow> int \<Rightarrow> rat \<Rightarrow> state" where
  "updateParticipantTimeBank s g u t =
     (case map_of (gameParticipants s) (g, u) of
        None \<Rightarrow> s
      | Some p \<Rightarrow> s\<lparr>gameParticipants :=
                     AList.update (g, u) (p\<lparr>timeBank := Some t\<rparr>) (gameParticipants s)\<rparr>)"

definition updateParticipantTokens :: "state \<Rightarrow> int \<Rightarrow> int \<Rightarrow> int \<Rightarrow> state" where
  "updateParticipantTokens s g u n =
     (case map_of (gameParticipants s) (g, u) of
        None \<Rightarrow> s
      | Some p \<Rightarrow> s\<lparr>gameParticipants :=
                     AList.update (g, u) (p\<lparr>tokensWon := n\<rparr>) (gameParticipants s)\<rparr>)"

definition eliminateParticipant :: "state \<Rightarrow> int \<Rightarrow> int \<Rightarrow> state" where
  "eliminateParticipant s g u =
     (case map_of (gameParticipants s) (g, u) of
        None \<Rightarrow> s
      | Some p \<Rightarrow> s\<lparr>gameParticipants :=
                     AList.update (g, u) (p\<lparr>isEliminated := True\<rparr>) (gameParticipants s)\<rparr>)"

definition createRound :: "state \<Rightarrow> gameRound \<Rightarrow> state" where
  "createRound s r =
     (let n = roundIdCounter s
      in s\<lparr>roundIdCounter := n + 1, gameRounds := AList.update n r (gameRounds s)\<rparr>)"

text \<open>Modelled from the spec: \<open>updateGameHost\<close>, \<open>updateParticipantBidDetails\<close> and
  \<open>updateGameRoundResults\<close> are called by the routes but are not among the methods of
  \<open>MemStorage\<close> in the source. The Persistence Port is described as updating scalar game
  and participant fields (host, per-round bid fields, round number), atomically per row;
  they are written like their sibling update methods: look the row up under the key built
  from the arguments and, if present, store a copy with the given fields replaced.\<close>

definition updateGameHost :: "state \<Rightarrow> int \<Rightarrow> int \<Rightarrow> state" where
  "updateGameHost s g u =
     (case map_of (games s) g of
        None \<Rightarrow> s
      | Some gm \<Rightarrow> s\<lparr>games := AList.update g (gm\<lparr>hostId := Some u\<rparr>) (games s)\<rparr>)"

definition updateParticipantBidDetails :: "state \<Rightarrow> int \<Rightarrow> int \<Rightarrow> bool \<Rightarrow> rat \<Rightarrow> state" where
  "updateParticipantBidDetails s g u b h =
     (case map_of (gameParticipants s) (g, u) of
        None \<Rightarrow> s
      | Some p \<Rightarrow> s\<lparr>gameParticipants :=
                     AList.update (g, u) (p\<lparr>hasBidThisRound := b, lastHoldTime := h\<rparr>)
                       (gameParticipants s)\<rparr>)"

definition updateGameRoundResults :: "state \<Rightarrow> int \<Rightarrow> int option \<Rightarrow> rat \<Rightarrow> int \<Rightarrow> state" where
  "updateGameRoundResults s g w m r =
     (case map_of (games s) g of
        None \<Rightarrow> s
      | Some gm \<Rightarrow> s\<lparr>games := AList.update g
                     (gm\<lparr>roundWinnerId := w, maxHoldTimeLastRound := m, currentRound := r\<rparr>)
                     (games s)\<rparr>)"

section \<open>Routes: the game-session orchestrator\<close>

text \<open>\<open>Array.prototype.reduce\<close> without an initial value: the first element seeds the
  accumulator; on an empty array it throws, which the caller excludes by its length test.\<close>

fun reduce :: "('a \<Rightarrow> 'a \<Rightarrow> 'a) \<Rightarrow> 'a list \<Rightarrow> 'a option" where
  "reduce f [] = None"
| "reduce f (x # xs) = Some (foldl f x xs)"

text \<open>\<open>Math.min(...xs)\<close>; \<open>None\<close> stands for the \<open>Infinity\<close> of the empty argument list.\<close>

fun math_min :: "int list \<Rightarrow> int option" where
  "math_min [] = None"
| "math_min (x # xs) = Some (fold min xs x)"

text \<open>\<open>Array.prototype.sort\<close> with a comparator is a stable sort; it is modelled by stable
  insertion under the comparator (an element goes before the first one it does not
  compare greater than).\<close>

fun insert_by :: "('a \<Rightarrow> 'a \<Rightarrow> rat) \<Rightarrow> 'a \<Rightarrow> 'a list \<Rightarrow> 'a list" where
  "insert_by cmp x [] = [x]"
| "insert_by cmp x (y # ys) = (if cmp x y \<le> 0 then x # y # ys else y # insert_by cmp x ys)"

definition sort_by :: "('a \<Rightarrow> 'a \<Rightarrow> rat) \<Rightarrow> 'a list \<Rightarrow> 'a list" where
  "sort_by cmp xs = foldr (insert_by cmp) xs []"

definition sendGameState :: "state \<Rightarrow> int \<Rightarrow> int \<Rightarrow> webSocket \<Rightarrow> effect list" where
  "sendGameState s g u sock =
     (case getGame s g of
        None \<Rightarrow> [Send sock (ERROR ''Game not found'')]
      | Some gm \<Rightarrow>
          [Send sock (GAME_STATE g gm
             (filter (\<lambda>p. userId p \<noteq> 0 \<and> userId p > 0) (getParticipantsByGame s g)))])"

definition is_GAME_STATE :: "gameEvent \<Rightarrow> bool" where
  "is_GAME_STATE m = (case m of GAME_STATE _ _ _ \<Rightarrow> True | _ \<Rightarrow> False)"

definition is_GAME_CANCELLED :: "gameEvent \<Rightarrow> bool" where
  "is_GAME_CANCELLED m = (case m of GAME_CANCELLED _ \<Rightarrow> True | _ \<Rightarrow> False)"

definition is_resync_trigger :: "gameEvent \<Rightarrow> bool" where
  "is_resync_trigger m =
     (case m of ROUND_END _ _ _ _ _ \<Rightarrow> True | GAME_START _ \<Rightarrow> True | PLAYER_LEFT _ _ \<Rightarrow> True
      | _ \<Rightarrow> False)"

definition broadcastToGame :: "state \<Rightarrow> int \<Rightarrow> gameEvent \<Rightarrow> effect list" where
  "broadcastToGame s g m =
     (case map_of (gameClients s) g of
        None \<Rightarrow> []
      | Some clients \<Rightarrow>
          (let open_clients = filter (\<lambda>(u, sock). readyStateOpen sock) clients;
               connectedPlayers = length open_clients
           in map (\<lambda>(u, sock). Send sock m) open_clients
              @ (if \<not> is_GAME_STATE m \<and> connectedPlayers = 0 \<and> \<not> is_GAME_CANCELLED m
                 then [Detached (Task_handleEmptyGame g)] else [])
              @ (if is_resync_trigger m
                 then map (\<lambda>(u, sock). Detached (Task_sendGameState g u sock)) open_clients
                 else [])))"

definition handleEmptyGame :: "state \<Rightarrow> int \<Rightarrow> state" where
  "handleEmptyGame s g =
     (case getGame s g of
        None \<Rightarrow> s
      | Some gm \<Rightarrow>
          (let participants = getParticipantsByGame s g
           in if length participants < 2
                 \<or> (status gm = waiting
                     \<and> (case map_of (gameClients s) g of None \<Rightarrow> False | Some c \<Rightarrow> length c = 0))
              then (setGameEndTime (updateGameStatus s g completed) g)
                     \<lparr>gameClients := AList.delete g (gameClients s)\<rparr>
              else s))"

definition compareRankings :: "ranking \<Rightarrow> ranking \<Rightarrow> rat" where
  "compareRankings a b =
     (if tokens b \<noteq> tokens a then of_int (tokens b - tokens a)
      else timeRemaining b - timeRemaining a)"

definition toRanking :: "state \<Rightarrow> gameParticipant \<Rightarrow> ranking" where
  "toRanking s p =
     \<lparr>r_userId = userId p,
      r_username = (case getUser s (userId p) of None \<Rightarrow> '''' | Some usr \<Rightarrow> username usr),
      r_displayName = (case getUser s (userId p) of None \<Rightarrow> '''' | Some usr \<Rightarrow> displayName usr),
      tokens = tokensWon p,
      timeRemaining = (case timeBank p of None \<Rightarrow> 0 | Some t \<Rightarrow> t)\<rparr>"

definition endGame :: "state \<Rightarrow> int \<Rightarrow> state \<times> effect list" where
  "endGame s g =
     (case getGame s g of
        None \<Rightarrow> (s, [])
      | Some gm \<Rightarrow>
          (let s1 = setGameEndTime (updateGameStatus s g completed) g;
               participants = getParticipantsByGame s1 g;
               lowestTokens = math_min (map tokensWon participants);
               s2 = fold (\<lambda>participant st.
                            if Some (tokensWon participant) = lowestTokens
                            then eliminateParticipant st g (userId participant) else st)
                      participants s1;
               rankings = map (toRanking s2) participants;
               sortedRankings = sort_by compareRankings rankings
           in (s2, broadcastToGame s2 g (GAME_END g sortedRankings))))"

text \<open>The winner selection of \<open>endCurrentRound\<close>: the callback handed to \<open>reduce\<close>, and the
  \<open>roundWinner\<close> it computes from the game's participant rows (\<open>None\<close> for \<open>null\<close>).\<close>

definition longerHold :: "gameParticipant \<Rightarrow> gameParticipant \<Rightarrow> gameParticipant" where
  "longerHold prev current = (if lastHoldTime prev > lastHoldTime current then prev else current)"

definition roundWinnerOf :: "gameParticipant list \<Rightarrow> gameParticipant option" where
  "roundWinnerOf participants =
     (let activeBidders = filter (\<lambda>p. \<not> isEliminated p \<and> hasBidThisRound p) participants
      in if length activeBidders > 0 then reduce longerHold activeBidders else None)"

definition endCurrentRound :: "state \<Rightarrow> int \<Rightarrow> state \<times> effect list" where
  "endCurrentRound s g =
     (case getGame s g of
        None \<Rightarrow> (s, [])
      | Some gm \<Rightarrow>
          if status gm \<noteq> in_progress then (s, [])
          else
            (let participants = getParticipantsByGame s g;
                 roundWinner = roundWinnerOf participants;
                 maxHoldTimeThisRound =
                   (case roundWinner of None \<Rightarrow> 0 | Some w \<Rightarrow> lastHoldTime w);
                 s1 = (case roundWinner of
                         None \<Rightarrow> s
                       | Some w \<Rightarrow> updateParticipantTokens s g (id_p w) (tokensWon w + 1));
                 e1 = (case roundWinner of
                         None \<Rightarrow> [ConsoleLog (NoActiveBidders g (currentRound gm))]
                       | Some w \<Rightarrow> [ConsoleLog (RoundWinner g (currentRound gm) (id_p w)
                                                  maxHoldTimeThisRound)]);
                 s2 = updateGameRoundResults s1 g (map_option id_p roundWinner)
                        maxHoldTimeThisRound (currentRound gm + 1);
                 s3 = fold (\<lambda>p st. updateParticipantBidDetails st g (id_p p) False 0)
                        participants s2
             in case getGame s3 g of
                  None \<Rightarrow> (s3, e1)
                | Some gm' \<Rightarrow>
                    (let nextRoundNumber = currentRound gm';
                         isLastRoundCompleted = (nextRoundNumber - 1 \<ge> totalRounds gm');
                         e2 = broadcastToGame s3 g
                                (ROUND_END g (nextRoundNumber - 1)
                                   (case roundWinner of None \<Rightarrow> 0 | Some w \<Rightarrow> id_p w)
                                   maxHoldTimeThisRound
                                   (if isLastRoundCompleted then - 1 else nextRoundNumber))
                     in if isLastRoundCompleted
                        then (let (s4, e3) = endGame s3 g in (s4, e1 @ e2 @ e3))
                        else (s3, e1 @ e2 @ [ScheduleRoundStart g nextRoundNumber]))))"

definition allActivePlayersHaveBid :: "gameParticipant list \<Rightarrow> bool" where
  "allActivePlayersHaveBid freshParticipants =
     (let activePlayers = filter (\<lambda>p. \<not> isEliminated p) freshParticipants;
          playersWhoHaveBid = filter hasBidThisRound freshParticipants
      in length activePlayers > 0
         \<and> list_all (\<lambda>p. list_ex (\<lambda>b. userId b = userId p) playersWhoHaveBid) activePlayers)"

definition handleBuzzerRelease :: "state \<Rightarrow> int \<Rightarrow> int \<Rightarrow> rat \<Rightarrow> state \<times> effect list" where
  "handleBuzzerRelease s g u holdTime =
     (case getGame s g of
        None \<Rightarrow> (s, [])
      | Some gm \<Rightarrow>
          if status gm \<noteq> in_progress then (s, [])
          else
            (case getParticipant s g u of
               None \<Rightarrow> (s, [])
             | Some participant \<Rightarrow>
                 if isEliminated participant then (s, [])
                 else if hasBidThisRound participant then (s, [])
                 else
                   (let s1 = (case timeBank participant of
                                None \<Rightarrow> s
                              | Some tb \<Rightarrow>
                                  (let holdTimeSeconds = holdTime / 1000;
                                       newTimeBank = max 0 (tb - holdTimeSeconds)
                                   in updateParticipantTimeBank s g u newTimeBank));
                        s2 = updateParticipantBidDetails s1 g u True holdTime;
                        e1 = broadcastToGame s2 g (BUZZER_RELEASE g u holdTime);
                        freshParticipants = getParticipantsByGame s2 g
                    in if allActivePlayersHaveBid freshParticipants
                       then (let (s3, e2) = endCurrentRound s2 g
                             in (s3, e1 @ [ConsoleLog (AllActiveHaveBid_EndingRound g)] @ e2))
                       else (s2, e1))))"

definition handleBuzzerHold :: "state \<Rightarrow> int \<Rightarrow> int \<Rightarrow> state \<times> effect list" where
  "handleBuzzerHold s g u = (s, broadcastToGame s g (BUZZER_HOLD g u))"

definition handlePlayerReady :: "state \<Rightarrow> int \<Rightarrow> int \<Rightarrow> bool \<Rightarrow> state \<times> effect list" where
  "handlePlayerReady s g u b =
     (let s1 = updateParticipantReadyStatus s g u b;
          e1 = broadcastToGame s1 g (PLAYER_READY g u b);
          participants = getParticipantsByGame s1 g
      in case getGame s1 g of
           None \<Rightarrow> (s1, e1)
         | Some gm \<Rightarrow>
             if status gm = waiting \<and> length participants \<ge> 2
             then (if list_all isReady participants
                   then (s1, e1 @ [StartGameCountdown g]) else (s1, e1))
             else (s1, e1))"

definition startGame :: "state \<Rightarrow> int \<Rightarrow> state \<times> effect list" where
  "startGame s g =
     (case getGame s g of
        None \<Rightarrow> (s, [])
      | Some gm \<Rightarrow>
          if status gm \<noteq> waiting then (s, [])
          else
            (let s1 = setGameStartTime (updateGameStatus s g in_progress) g;
                 s2 = createRound s1 \<lparr>roundGameId = g, roundNumber = 1, winnerId = None\<rparr>
             in (s2, broadcastToGame s2 g (GAME_START g)
                     @ broadcastToGame s2 g (ROUND_START g 1))))"

text \<open>The part of \<open>handleJoinGame\<close> after its \<open>try\<close> block: bind the socket to the room,
  announce the join, send the snapshot.\<close>

definition addToGameRoom :: "state \<Rightarrow> int \<Rightarrow> int \<Rightarrow> webSocket \<Rightarrow> state \<times> effect list" where
  "addToGameRoom s g u sock =
     (let gameUsers = (case map_of (gameClients s) g of None \<Rightarrow> [] | Some c \<Rightarrow> c);
          s1 = s\<lparr>gameClients := AList.update g (AList.update u sock gameUsers) (gameClients s)\<rparr>;
          usr = getUser s1 u
      in (s1, broadcastToGame s1 g
                (JOIN_GAME g u (case usr of None \<Rightarrow> '''' | Some x \<Rightarrow> username x)
                               (case usr of None \<Rightarrow> '''' | Some x \<Rightarrow> displayName x))
              @ sendGameState s1 g u sock))"

definition handleJoinGame :: "state \<Rightarrow> int \<Rightarrow> int \<Rightarrow> webSocket \<Rightarrow> state \<times> effect list" where
  "handleJoinGame s g u sock =
     (case getGame s g of
        None \<Rightarrow> (s, [Send sock (ERROR ''Game not found'')])
      | Some gm \<Rightarrow>
          if status gm \<noteq> waiting \<and> getParticipant s g u = None
          then (s, [Send sock (ERROR ''Game already started'')])
          else
            (let isCreator = (createdById gm = u)
             in case getParticipant s g u of
                  None \<Rightarrow>
                    (case getUser s u of
                       None \<Rightarrow> (s, [Send sock (ERROR ''User not found'')])
                     | Some usr \<Rightarrow>
                         (let currentHost = find isHost (getParticipantsByGame s g);
                              shouldBeHost = (isCreator \<and> currentHost = None);
                              (s1, participant) = addParticipant s
                                 \<lparr>gameId = g, userId = u, isHost = shouldBeHost,
                                  isReady = shouldBeHost, timeBank = Some (startingTimeBank gm),
                                  tokensWon = 0, isEliminated = False, isBot = False\<rparr>;
                              s2 = (if shouldBeHost then updateGameHost s1 g u else s1)
                          in addToGameRoom s2 g u sock))
                | Some participant \<Rightarrow>
                    (let s1 =
                       (if isCreator \<and> \<not> isHost participant
                        then (case find isHost (getParticipantsByGame s g) of
                                Some currentHost \<Rightarrow> s
                              | None \<Rightarrow>
                                  (let sa = updateGameHost
                                              (updateParticipantHostStatus s g u True) g u
                                   in case getParticipant sa g u of
                                        None \<Rightarrow> sa
                                      | Some p' \<Rightarrow>
                                          if \<not> isReady p'
                                          then updateParticipantReadyStatus sa g u True
                                          else sa))
                        else s)
                     in addToGameRoom s1 g u sock)))"

text \<open>The Lifecycle Sweeper. The list of games is fetched once; each game of the list is
  then examined against the stores as they are at that point of the loop.\<close>

definition cleanupGames :: "state \<Rightarrow> state" where
  "cleanupGames s =
     (let allGames = getPublicGames s
      in fold (\<lambda>gm st.
           (let participants = getParticipantsByGame st (id_g gm);
                gameClientMap = (case map_of (gameClients st) (id_g gm) of
                                   None \<Rightarrow> [] | Some c \<Rightarrow> c);
                activeClients = length (filter readyStateOpen (map snd gameClientMap))
            in if length participants < 2 \<or> (activeClients = 0 \<and> status gm = waiting)
               then (let st1 = setGameEndTime (updateGameStatus st (id_g gm) completed) (id_g gm)
                     in st1\<lparr>gameClients := AList.delete (id_g gm) (gameClients st1)\<rparr>)
               else st))
           allGames s)"

text \<open>The \<open>close\<close> callback of a connection that has identified as \<open>u\<close> and joined room \<open>g\<close>
  (the \<open>userSocketMap\<close> entry it also clears is not part of the model).\<close>

definition onClose :: "state \<Rightarrow> int \<Rightarrow> int \<Rightarrow> webSocket \<Rightarrow> state \<times> effect list" where
  "onClose s g u ws =
     (case map_of (gameClients s) g of
        None \<Rightarrow> (s, [])
      | Some gameUsers \<Rightarrow>
          if map_of gameUsers u = Some ws
          then (let gameUsers' = AList.delete u gameUsers;
                    s1 = s\<lparr>gameClients :=
                            (if length gameUsers' = 0 then AList.delete g (gameClients s)
                             else AList.update g gameUsers' (gameClients s))\<rparr>
                in (s1, broadcastToGame s1 g (PLAYER_LEFT g u)))
          else (s, []))"

section \<open>Runs of the server\<close>

text \<open>One step of the server is one handler run to completion: a client message handed to
  its handler by the dispatcher, a connection closing, a timer firing (\<open>startGame\<close> at the
  end of the countdown, the sweeper), or a detached \<open>handleEmptyGame\<close> check.\<close>

datatype action =
    Msg_JOIN_GAME int int webSocket
  | Msg_PLAYER_READY int int bool
  | Msg_BUZZER_HOLD int int
  | Msg_BUZZER_RELEASE int int rat
  | Conn_close int int webSocket
  | Timer_startGame int
  | Timer_cleanupGames
  | Run_handleEmptyGame int

fun step :: "state \<Rightarrow> action \<Rightarrow> state \<times> effect list" where
  "step s (Msg_JOIN_GAME g u ws) = handleJoinGame s g u ws"
| "step s (Msg_PLAYER_READY g u b) = handlePlayerReady s g u b"
| "step s (Msg_BUZZER_HOLD g u) = handleBuzzerHold s g u"
| "step s (Msg_BUZZER_RELEASE g u h) = handleBuzzerRelease s g u h"
| "step s (Conn_close g u ws) = onClose s g u ws"
| "step s (Timer_startGame g) = startGame s g"
| "step s Timer_cleanupGames = (cleanupGames s, [])"
| "step s (Run_handleEmptyGame g) = (handleEmptyGame s g, [])"

fun run :: "state \<Rightarrow> action list \<Rightarrow> state \<times> effect list" where
  "run s [] = (s, [])"
| "run s (a # as) =
     (let (s1, e1) = step s a; (s2, e2) = run s1 as in (s2, e1 @ e2))"

text \<open>The round numbers a trace reports as resolved for game \<open>g\<close>, in order.\<close>

fun resolvedRounds :: "int \<Rightarrow> effect list \<Rightarrow> int list" where
  "resolvedRounds g [] = []"
| "resolvedRounds g (ConsoleLog (RoundWinner g' r w h) # es) =
     (if g' = g then r # resolvedRounds g es else resolvedRounds g es)"
| "resolvedRounds g (ConsoleLog (NoActiveBidders g' r) # es) =
     (if g' = g then r # resolvedRounds g es else resolvedRounds g es)"
| "resolvedRounds g (e # es) = resolvedRounds g es"

fun nonNegativeHolds :: "action list \<Rightarrow> bool" where
  "nonNegativeHolds [] = True"
| "nonNegativeHolds (Msg_BUZZER_RELEASE g u h # as) = (0 \<le> h \<and> nonNegativeHolds as)"
| "nonNegativeHolds (a # as) = nonNegativeHolds as"

section \<open>Store invariant and fixtures\<close>

text \<open>What the participant \<open>Map\<close> guarantees by construction: one entry per key, and every
  row filed under the key built from its own \<open>gameId\<close> and \<open>userId\<close>.\<close>

definition participants_wf :: "state \<Rightarrow> bool" where
  "participants_wf s =
     (distinct (map fst (gameParticipants s))
      \<and> list_all (\<lambda>kp. fst kp = (gameId (snd kp), userId (snd kp))) (gameParticipants s))"

text \<open>Change the row stored under a key, if there is one.\<close>

definition modifyParticipant ::
  "state \<Rightarrow> int \<times> int \<Rightarrow> (gameParticipant \<Rightarrow> gameParticipant) \<Rightarrow> state" where
  "modifyParticipant s k f = s\<lparr>gameParticipants := AList.map_entry k f (gameParticipants s)\<rparr>"

definition modifyGame :: "state \<Rightarrow> int \<Rightarrow> (game \<Rightarrow> game) \<Rightarrow> state" where
  "modifyGame s g f = s\<lparr>games := AList.map_entry g f (games s)\<rparr>"

text \<open>Row updates that leave the key fields alone.\<close>

definition keeps_key :: "(gameParticipant \<Rightarrow> gameParticipant) \<Rightarrow> bool" where
  "keeps_key f = (\<forall>p. gameId (f p) = gameId p \<and> userId (f p) = userId p)"

text \<open>A game with id 1 created by user 2, and rows of it, for concrete runs.\<close>

definition demo_game :: "gameStatus \<Rightarrow> game" where
  "demo_game st = \<lparr>id_g = 1, createdById = 2, status = st, currentRound = 1, totalRounds = 3,
     startingTimeBank = 60, isPublic = True, hasBots = False, startedAt = True, endedAt = False,
     maxHoldTimeLastRound = 0, roundWinnerId = None, hostId = Some 2\<rparr>"

definition demo_participant :: "int \<Rightarrow> int \<Rightarrow> bool \<Rightarrow> bool \<Rightarrow> rat \<Rightarrow> gameParticipant" where
  "demo_participant rid uid elim bid hold =
     \<lparr>gameId = 1, userId = uid, isHost = (uid = 2), isReady = True, timeBank = Some 10,
      tokensWon = 0, isEliminated = elim, isBot = False,
      id_p = rid, hasBidThisRound = bid, lastHoldTime = hold\<rparr>"

definition demo_state :: "gameStatus \<Rightarrow> gameParticipant list \<Rightarrow> state" where
  "demo_state st ps =
     \<lparr>users = [(1, \<lparr>username = ''alice'', displayName = ''Alice''\<rparr>),
               (2, \<lparr>username = ''bob'', displayName = ''Bob''\<rparr>)],
      games = [(1, demo_game st)],
      gameParticipants = map (\<lambda>p. ((gameId p, userId p), p)) ps,
      gameRounds = [],
      participantIdCounter = 3,
      roundIdCounter = 1,
      gameClients = [(1, [(1, WebSocket 1 True), (2, WebSocket 2 True)])]\<rparr>"

text \<open>Two bidders with the same hold duration; row ids equal user ids.\<close>

definition tie_state :: state where
  "tie_state = demo_state in_progress
     [demo_participant 1 1 False True 3000, demo_participant 2 2 False True 3000]"

text \<open>A lobby with one human (the host, not yet ready) and one bot row.\<close>

definition lobby_with_bot :: state where
  "lobby_with_bot = demo_state waiting
     [(demo_participant 1 2 False False 0)\<lparr>isReady := False\<rparr>,
      (demo_participant 2 1 False False 0)\<lparr>isBot := True\<rparr>]"

text \<open>Every row present before is still present after, and related to its old value.\<close>

definition rows_evolve ::
  "(gameParticipant \<Rightarrow> gameParticipant \<Rightarrow> bool) \<Rightarrow> state \<Rightarrow> state \<Rightarrow> bool" where
  "rows_evolve R s s' =
     (\<forall>g u p. getParticipant s g u = Some p \<longrightarrow> (\<exists>p'. getParticipant s' g u = Some p' \<and> R p p'))"

text \<open>Reflexive and transitive relations on rows.\<close>

definition preorder_rows :: "(gameParticipant \<Rightarrow> gameParticipant \<Rightarrow> bool) \<Rightarrow> bool" where
  "preorder_rows R = ((\<forall>p. R p p) \<and> (\<forall>a b c. R a b \<longrightarrow> R b c \<longrightarrow> R a c))"

text \<open>The store after \<open>handleBuzzerRelease\<close> has recorded an accepted bid: the sender's budget
  is charged (if it has one) and its per-round fields are set.\<close>

definition recordBid :: "state \<Rightarrow> int \<Rightarrow> int \<Rightarrow> rat \<Rightarrow> state" where
  "recordBid s g u h =
     modifyParticipant s (g, u)
       (\<lambda>p. p\<lparr>timeBank := map_option (\<lambda>tb. max 0 (tb - h / 1000)) (timeBank p),
              hasBidThisRound := True, lastHoldTime := h\<rparr>)"

text \<open>A preorder on rows that holds across every change the game's bookkeeping makes to a
  field other than the time budget.\<close>

definition tolerates_bookkeeping :: "(gameParticipant \<Rightarrow> gameParticipant \<Rightarrow> bool) \<Rightarrow> bool" where
  "tolerates_bookkeeping R =
     (preorder_rows R
      \<and> (\<forall>p b. R p (p\<lparr>isReady := b\<rparr>))
      \<and> (\<forall>p b. R p (p\<lparr>isHost := b\<rparr>))
      \<and> (\<forall>p n. R p (p\<lparr>tokensWon := n\<rparr>))
      \<and> (\<forall>p. R p (p\<lparr>isEliminated := True\<rparr>))
      \<and> (\<forall>p b h. R p (p\<lparr>hasBidThisRound := b, lastHoldTime := h\<rparr>)))"

text \<open>The relation tolerates the charge that a release of each listed action makes.\<close>

fun tolerates_releases ::
  "(gameParticipant \<Rightarrow> gameParticipant \<Rightarrow> bool) \<Rightarrow> action list \<Rightarrow> bool" where
  "tolerates_releases R [] = True"
| "tolerates_releases R (Msg_BUZZER_RELEASE g u h # as) =
     ((\<forall>p. R p (p\<lparr>timeBank := map_option (\<lambda>tb. max 0 (tb - h / 1000)) (timeBank p),
                    hasBidThisRound := True, lastHoldTime := h\<rparr>))
      \<and> tolerates_releases R as)"
| "tolerates_releases R (a # as) = tolerates_releases R as"

text \<open>The budget of a row does not grow and stays non-negative, if it was non-negative.\<close>

definition budget_shrinks :: "gameParticipant \<Rightarrow> gameParticipant \<Rightarrow> bool" where
  "budget_shrinks p p' =
     (case timeBank p of
        None \<Rightarrow> timeBank p' = None
      | Some t \<Rightarrow> (\<exists>t'. timeBank p' = Some t' \<and> (0 \<le> t \<longrightarrow> 0 \<le> t' \<and> t' \<le> t)))"

text \<open>The budget of a row is untouched.\<close>

definition same_budget :: "gameParticipant \<Rightarrow> gameParticipant \<Rightarrow> bool" where
  "same_budget p p' = (timeBank p' = timeBank p)"

text \<open>Two players in a running game, neither has bid; budgets are 10 seconds.\<close>

definition round_open :: state where
  "round_open = demo_state in_progress
     [demo_participant 1 1 False False 0, demo_participant 2 2 False False 0]"

text \<open>A private lobby: game 1 is not public, still \<open>waiting\<close>, and has one participant, its
  creator.\<close>

definition private_lobby :: state where
  "private_lobby =
     (demo_state waiting [(demo_participant 1 2 False False 0)])
       \<lparr>games := [(1, (demo_game waiting)\<lparr>isPublic := False\<rparr>)]\<rparr>"

text \<open>A running game that is down to one participant row.\<close>

definition lone_player_running :: state where
  "lone_player_running = demo_state in_progress [(demo_participant 1 2 False False 0)]"

text \<open>The order of the final rankings: more tokens first, then more time left.\<close>

definition ranks_before :: "ranking \<Rightarrow> ranking \<Rightarrow> bool" where
  "ranks_before a b =
     (tokens a > tokens b \<or> (tokens a = tokens b \<and> timeRemaining a \<ge> timeRemaining b))"

text \<open>The last round is over: user 1 has two tokens, users 2 and 3 one each.\<close>

definition final_scores :: state where
  "final_scores = demo_state in_progress
     [(demo_participant 1 1 False False 0)\<lparr>tokensWon := 2, timeBank := Some 3\<rparr>,
      (demo_participant 2 2 False False 0)\<lparr>tokensWon := 1, timeBank := Some 5\<rparr>,
      (demo_participant 3 3 False False 0)\<lparr>tokensWon := 1, timeBank := Some 8\<rparr>]"

text \<open>User 2, the creator, is in the lobby with one token but without the host flag.\<close>

definition lobby_rejoin :: state where
  "lobby_rejoin = demo_state waiting
     [(demo_participant 1 2 False False 0)\<lparr>isHost := False, isReady := False, tokensWon := 1\<rparr>,
      demo_participant 2 1 False False 0]"

text \<open>No game's round number differs between the two stores.\<close>

definition sameRounds :: "state \<Rightarrow> state \<Rightarrow> bool" where
  "sameRounds s s' =
     (\<forall>g. map_option currentRound (getGame s' g) = map_option currentRound (getGame s g))"

text \<open>The token count of a row is untouched.\<close>

definition same_tokens :: "gameParticipant \<Rightarrow> gameParticipant \<Rightarrow> bool" where
  "same_tokens p p' = (tokensWon p' = tokensWon p)"

text \<open>User 2 has bid 3000 ms in the current round, user 1 has not bid yet.\<close>

definition last_bid_pending :: state where
  "last_bid_pending = demo_state in_progress
     [demo_participant 1 1 False False 0, demo_participant 2 2 False True 3000]"

text \<open>A running game whose two participants are both eliminated.\<close>

definition all_out :: state where
  "all_out = demo_state in_progress
     [demo_participant 1 1 True False 0, demo_participant 2 2 True False 0]"

section \<open>Unfolding sets\<close>

lemmas storage_defs = getUser_def getGame_def updateGameStatus_def setGameStartTime_def
  setGameEndTime_def getPublicGames_def addParticipant_def getParticipant_def
  getParticipantsByGame_def updateParticipantReadyStatus_def updateParticipantHostStatus_def
  updateParticipantTimeBank_def updateParticipantTokens_def eliminateParticipant_def
  createRound_def updateGameHost_def updateParticipantBidDetails_def updateGameRoundResults_def

lemmas route_defs = longerHold_def roundWinnerOf_def sendGameState_def broadcastToGame_def handleEmptyGame_def
  endGame_def endCurrentRound_def allActivePlayersHaveBid_def handleBuzzerRelease_def
  handleBuzzerHold_def handlePlayerReady_def startGame_def addToGameRoom_def handleJoinGame_def
  cleanupGames_def onClose_def sort_by_def compareRankings_def toRanking_def is_GAME_STATE_def
  is_GAME_CANCELLED_def is_resync_trigger_def

lemmas demo_defs = demo_game_def demo_participant_def demo_state_def

section \<open>The storage methods as row updates\<close>

lemma map_entry_absent: "map_of xs k = None \<Longrightarrow> AList.map_entry k f xs = xs"
  by (induction xs) (auto split: if_splits)

lemma map_entry_present:
  "map_of xs k = Some v \<Longrightarrow> AList.update k (f v) xs = AList.map_entry k f xs"
  by (induction xs) (auto split: if_splits)

lemma modifyParticipant_alt:
  "(case map_of (gameParticipants s) k of
      None \<Rightarrow> s
    | Some p \<Rightarrow> s\<lparr>gameParticipants := AList.update k (f p) (gameParticipants s)\<rparr>)
   = modifyParticipant s k f"
  by (simp add: modifyParticipant_def map_entry_absent map_entry_present split: option.splits)

lemma modifyGame_alt:
  "(case map_of (games s) g of
      None \<Rightarrow> s
    | Some gm \<Rightarrow> s\<lparr>games := AList.update g (f gm) (games s)\<rparr>)
   = modifyGame s g f"
  by (simp add: modifyGame_def map_entry_absent map_entry_present split: option.splits)

lemma updateParticipantReadyStatus_modify:
  "updateParticipantReadyStatus s g u b = modifyParticipant s (g, u) (\<lambda>p. p\<lparr>isReady := b\<rparr>)"
  unfolding updateParticipantReadyStatus_def by (rule modifyParticipant_alt)

lemma updateParticipantHostStatus_modify:
  "updateParticipantHostStatus s g u b = modifyParticipant s (g, u) (\<lambda>p. p\<lparr>isHost := b\<rparr>)"
  unfolding updateParticipantHostStatus_def by (rule modifyParticipant_alt)

lemma updateParticipantTimeBank_modify:
  "updateParticipantTimeBank s g u t = modifyParticipant s (g, u) (\<lambda>p. p\<lparr>timeBank := Some t\<rparr>)"
  unfolding updateParticipantTimeBank_def by (rule modifyParticipant_alt)

lemma updateParticipantTokens_modify:
  "updateParticipantTokens s g u n = modifyParticipant s (g, u) (\<lambda>p. p\<lparr>tokensWon := n\<rparr>)"
  unfolding updateParticipantTokens_def by (rule modifyParticipant_alt)

lemma eliminateParticipant_modify:
  "eliminateParticipant s g u = modifyParticipant s (g, u) (\<lambda>p. p\<lparr>isEliminated := True\<rparr>)"
  unfolding eliminateParticipant_def by (rule modifyParticipant_alt)

lemma updateParticipantBidDetails_modify:
  "updateParticipantBidDetails s g u b h
     = modifyParticipant s (g, u) (\<lambda>p. p\<lparr>hasBidThisRound := b, lastHoldTime := h\<rparr>)"
  unfolding updateParticipantBidDetails_def by (rule modifyParticipant_alt)

lemma updateGameStatus_modify:
  "updateGameStatus s g st = modifyGame s g (\<lambda>gm. gm\<lparr>status := st\<rparr>)"
  unfolding updateGameStatus_def by (rule modifyGame_alt)

lemma setGameStartTime_modify:
  "setGameStartTime s g = modifyGame s g (\<lambda>gm. gm\<lparr>startedAt := True\<rparr>)"
  unfolding setGameStartTime_def by (rule modifyGame_alt)

lemma setGameEndTime_modify:
  "setGameEndTime s g = modifyGame s g (\<lambda>gm. gm\<lparr>endedAt := True\<rparr>)"
  unfolding setGameEndTime_def by (rule modifyGame_alt)

lemma updateGameHost_modify:
  "updateGameHost s g u = modifyGame s g (\<lambda>gm. gm\<lparr>hostId := Some u\<rparr>)"
  unfolding updateGameHost_def by (rule modifyGame_alt)

lemma updateGameRoundResults_modify:
  "updateGameRoundResults s g w m r
     = modifyGame s g (\<lambda>gm. gm\<lparr>roundWinnerId := w, maxHoldTimeLastRound := m, currentRound := r\<rparr>)"
  unfolding updateGameRoundResults_def by (rule modifyGame_alt)

lemmas to_modify = updateParticipantReadyStatus_modify updateParticipantHostStatus_modify
  updateParticipantTimeBank_modify updateParticipantTokens_modify eliminateParticipant_modify
  updateParticipantBidDetails_modify updateGameStatus_modify setGameStartTime_modify
  setGameEndTime_modify updateGameHost_modify updateGameRoundResults_modify

lemma modifyParticipant_fields [simp]:
  "games (modifyParticipant s k f) = games s"
  "users (modifyParticipant s k f) = users s"
  "gameClients (modifyParticipant s k f) = gameClients s"
  "gameRounds (modifyParticipant s k f) = gameRounds s"
  "participantIdCounter (modifyParticipant s k f) = participantIdCounter s"
  "roundIdCounter (modifyParticipant s k f) = roundIdCounter s"
  by (simp_all add: modifyParticipant_def)

lemma modifyGame_fields [simp]:
  "gameParticipants (modifyGame s g f) = gameParticipants s"
  "users (modifyGame s g f) = users s"
  "gameClients (modifyGame s g f) = gameClients s"
  "gameRounds (modifyGame s g f) = gameRounds s"
  "participantIdCounter (modifyGame s g f) = participantIdCounter s"
  "roundIdCounter (modifyGame s g f) = roundIdCounter s"
  by (simp_all add: modifyGame_def)

lemma getGame_modifyParticipant [simp]: "getGame (modifyParticipant s k f) g = getGame s g"
  by (simp add: getGame_def)

lemma getUser_modifyParticipant [simp]: "getUser (modifyParticipant s k f) u = getUser s u"
  by (simp add: getUser_def)

lemma getUser_modifyGame [simp]: "getUser (modifyGame s g f) u = getUser s u"
  by (simp add: getUser_def)

lemma getParticipant_modifyGame [simp]:
  "getParticipant (modifyGame s g f) g' u = getParticipant s g' u"
  by (simp add: getParticipant_def)

lemma getParticipantsByGame_modifyGame [simp]:
  "getParticipantsByGame (modifyGame s g f) g' = getParticipantsByGame s g'"
  by (simp add: getParticipantsByGame_def)

lemma participants_wf_modifyGame [simp]:
  "participants_wf (modifyGame s g f) = participants_wf s"
  by (simp add: participants_wf_def)

lemma getGame_modifyGame [simp]:
  "getGame (modifyGame s g f) g' = (if g' = g then map_option f (getGame s g) else getGame s g')"
  by (simp add: getGame_def modifyGame_def map_of_map_entry split: option.splits)

lemma getParticipant_modifyParticipant [simp]:
  "getParticipant (modifyParticipant s k f) g u
     = (if (g, u) = k then map_option f (getParticipant s g u) else getParticipant s g u)"
  by (simp add: getParticipant_def modifyParticipant_def map_of_map_entry split: option.splits)

lemma keys_map_entry: "map fst (AList.map_entry k f xs) = map fst xs"
  by (induction xs) auto

lemma map_entry_distinct_conv:
  "distinct (map fst xs) \<Longrightarrow>
   AList.map_entry k f xs = map (\<lambda>kv. if fst kv = k then (fst kv, f (snd kv)) else kv) xs"
proof (induction xs)
  case Nil
  then show ?case by simp
next
  case (Cons x xs)
  show ?case
  proof (cases "fst x = k")
    case True
    with Cons.prems have "k \<notin> fst ` set xs" by auto
    then have "map (\<lambda>kv. if fst kv = k then (fst kv, f (snd kv)) else kv) xs = xs"
      by (intro map_idI) auto
    with True show ?thesis by simp
  next
    case False
    with Cons show ?thesis by simp
  qed
qed

lemma keeps_key_updates [simp]:
  "keeps_key (\<lambda>p. p\<lparr>isReady := b\<rparr>)"
  "keeps_key (\<lambda>p. p\<lparr>isHost := b\<rparr>)"
  "keeps_key (\<lambda>p. p\<lparr>timeBank := t\<rparr>)"
  "keeps_key (\<lambda>p. p\<lparr>tokensWon := n\<rparr>)"
  "keeps_key (\<lambda>p. p\<lparr>isEliminated := e\<rparr>)"
  "keeps_key (\<lambda>p. p\<lparr>hasBidThisRound := b, lastHoldTime := h\<rparr>)"
  by (simp_all add: keeps_key_def)

lemma participants_wf_modifyParticipant:
  assumes "keeps_key f" "participants_wf s"
  shows "participants_wf (modifyParticipant s k f)"
proof -
  from assms(2) have d: "distinct (map fst (gameParticipants s))"
    by (simp add: participants_wf_def)
  have "distinct (map fst (AList.map_entry k f (gameParticipants s)))"
    using d by (simp add: keys_map_entry)
  moreover have "list_all (\<lambda>kp. fst kp = (gameId (snd kp), userId (snd kp)))
                   (AList.map_entry k f (gameParticipants s))"
    using assms by (auto simp: map_entry_distinct_conv [OF d] list_all_iff
        participants_wf_def keeps_key_def)
  ultimately show ?thesis by (simp add: participants_wf_def modifyParticipant_def)
qed

lemma getParticipantsByGame_modifyParticipant:
  "keeps_key f \<Longrightarrow> participants_wf s \<Longrightarrow>
   getParticipantsByGame (modifyParticipant s k f) g
     = map (\<lambda>p. if (gameId p, userId p) = k then f p else p) (getParticipantsByGame s g)"
  unfolding participants_wf_def modifyParticipant_def getParticipantsByGame_def keeps_key_def
  by (auto simp: map_entry_distinct_conv list_all_iff filter_map comp_def intro!: map_cong filter_cong)

section \<open>Releases that are dropped\<close>

text \<open>
  Claim C10. A \<open>BUZZER_RELEASE\<close> handed to \<open>handleBuzzerRelease\<close> for a game that does not
  exist or is not \<open>in_progress\<close>, or from a user who has no participant row in that game or
  whose row is eliminated, leaves the whole server state as it was and produces no effect
  at all: nothing is sent to any socket, no broadcast is started.
\<close>

theorem handleBuzzerRelease_rejected_silent:
  "getGame s g = None \<or> (\<exists>gm. getGame s g = Some gm \<and> status gm \<noteq> in_progress)
   \<or> getParticipant s g u = None \<or> (\<exists>p. getParticipant s g u = Some p \<and> isEliminated p)
   \<Longrightarrow> handleBuzzerRelease s g u h = (s, [])"
  by (auto simp: handleBuzzerRelease_def split: option.splits)

theorem handleBuzzerRelease_rejected_silent_witness:
  "getParticipant (demo_state completed [demo_participant 1 1 False False 0]) 1 2 = None
   \<and> handleBuzzerRelease (demo_state completed [demo_participant 1 1 False False 0]) 1 2 700
       = (demo_state completed [demo_participant 1 1 False False 0], [])"
proof -
  have h: "getParticipant (demo_state completed [demo_participant 1 1 False False 0]) 1 2 = None"
    by (simp add: demo_defs getParticipant_def)
  from handleBuzzerRelease_rejected_silent
         [of "demo_state completed [demo_participant 1 1 False False 0]" 1 2 700] h
  show ?thesis by simp
qed

text \<open>
  Claim C8. When the sender's row already has \<open>hasBidThisRound\<close> set, a further
  \<open>BUZZER_RELEASE\<close> is dropped without a trace: the handler returns the state it was given
  (so the game row, every participant's \<open>timeBank\<close>, \<open>tokensWon\<close>, \<open>hasBidThisRound\<close> and
  \<open>lastHoldTime\<close>, and with them the round-resolution bookkeeping, are unchanged) and it
  sends nothing, in particular no \<open>ERROR\<close>.
\<close>

theorem handleBuzzerRelease_duplicate_dropped:
  "getParticipant s g u = Some p \<Longrightarrow> hasBidThisRound p
   \<Longrightarrow> handleBuzzerRelease s g u h = (s, [])"
  by (auto simp: handleBuzzerRelease_def split: option.splits)

theorem handleBuzzerRelease_duplicate_dropped_witness:
  "getParticipant (demo_state in_progress
       [demo_participant 1 1 False True 4000, demo_participant 2 2 False False 0]) 1 1
     = Some (demo_participant 1 1 False True 4000)
   \<and> hasBidThisRound (demo_participant 1 1 False True 4000)
   \<and> handleBuzzerRelease (demo_state in_progress
       [demo_participant 1 1 False True 4000, demo_participant 2 2 False False 0]) 1 1 9000
     = (demo_state in_progress
       [demo_participant 1 1 False True 4000, demo_participant 2 2 False False 0], [])"
proof -
  have h1: "getParticipant (demo_state in_progress
       [demo_participant 1 1 False True 4000, demo_participant 2 2 False False 0]) 1 1
     = Some (demo_participant 1 1 False True 4000)"
    by (simp add: demo_defs getParticipant_def)
  have h2: "hasBidThisRound (demo_participant 1 1 False True 4000)"
    by (simp add: demo_defs)
  from handleBuzzerRelease_duplicate_dropped [OF h1 h2, of 9000] h1 h2
  show ?thesis by simp
qed

section \<open>Who receives the token\<close>

text \<open>
  Claim C1. The claim asks that the round's token goes to the bidder with the greatest
  hold duration. \<open>endCurrentRound\<close> passes the winner's row id where
  \<open>updateParticipantTokens\<close> expects a user id. In game 1, created by user 2 (row 1) and
  then joined by user 1 (row 2), user 2 holds for 5000 ms and user 1 for 3000 ms: the
  round is resolved with row 1 as its winner, and the token is written to the row of
  user 1, the lower bidder, while user 2 stays at zero.
\<close>

theorem endCurrentRound_token_to_wrong_row:
  "map (\<lambda>p. (userId p, id_p p, lastHoldTime p, tokensWon p))
     (getParticipantsByGame
        (demo_state in_progress
           [demo_participant 1 2 False True 5000, demo_participant 2 1 False True 3000]) 1)
     = [(2, 1, 5000, 0), (1, 2, 3000, 0)]
   \<and> map (\<lambda>p. (userId p, tokensWon p))
       (getParticipantsByGame
          (fst (endCurrentRound
             (demo_state in_progress
                [demo_participant 1 2 False True 5000, demo_participant 2 1 False True 3000]) 1)) 1)
     = [(2, 0), (1, 1)]"
  by (simp add: demo_defs storage_defs route_defs)

section \<open>Round resolution: the winner\<close>

lemma foldl_longerHold_last_max:
  "\<exists>pre post. x # xs = pre @ foldl longerHold x xs # post
     \<and> (\<forall>p\<in>set pre. lastHoldTime p \<le> lastHoldTime (foldl longerHold x xs))
     \<and> (\<forall>p\<in>set post. lastHoldTime p < lastHoldTime (foldl longerHold x xs))"
proof (induction xs rule: rev_induct)
  case Nil
  show ?case by (rule exI [of _ "[]"], rule exI [of _ "[]"]) simp
next
  case (snoc y ys)
  let ?w = "foldl longerHold x ys"
  from snoc obtain pre post where dec: "x # ys = pre @ ?w # post"
    and le: "\<forall>p\<in>set pre. lastHoldTime p \<le> lastHoldTime ?w"
    and lt: "\<forall>p\<in>set post. lastHoldTime p < lastHoldTime ?w"
    by blast
  show ?case
  proof (cases "lastHoldTime ?w > lastHoldTime y")
    case True
    then have w: "foldl longerHold x (ys @ [y]) = ?w" by (simp add: longerHold_def)
    have "x # ys @ [y] = pre @ ?w # (post @ [y])" using dec by simp
    moreover have "\<forall>p\<in>set (post @ [y]). lastHoldTime p < lastHoldTime ?w"
      using lt True by auto
    ultimately show ?thesis unfolding w using le by blast
  next
    case False
    then have w: "foldl longerHold x (ys @ [y]) = y" by (simp add: longerHold_def)
    have all: "\<forall>p\<in>set (x # ys). lastHoldTime p \<le> lastHoldTime y"
    proof
      fix p assume "p \<in> set (x # ys)"
      then have "p \<in> set pre \<or> p = ?w \<or> p \<in> set post" unfolding dec by auto
      then have "lastHoldTime p \<le> lastHoldTime ?w" using le lt by force
      with False show "lastHoldTime p \<le> lastHoldTime y" by simp
    qed
    have "x # ys @ [y] = (x # ys) @ y # []" by simp
    then show ?thesis unfolding w using all by (metis empty_iff list.set(1))
  qed
qed

lemma reduce_longerHold_last_max:
  assumes "bs \<noteq> []"
  shows "\<exists>pre w post. reduce longerHold bs = Some w \<and> bs = pre @ w # post
     \<and> (\<forall>p\<in>set pre. lastHoldTime p \<le> lastHoldTime w)
     \<and> (\<forall>p\<in>set post. lastHoldTime p < lastHoldTime w)"
proof -
  from assms obtain x xs where bs: "bs = x # xs" by (cases bs) auto
  from foldl_longerHold_last_max [of x xs] show ?thesis unfolding bs by auto
qed

lemma fold_keeps:
  assumes "\<And>x st. h (f x st) = h st"
  shows "h (fold f xs s) = h s"
  using assms by (induction xs arbitrary: s) auto

lemma getGame_eliminateParticipant [simp]: "getGame (eliminateParticipant s g u) g' = getGame s g'"
  by (simp add: to_modify)

lemma getGame_updateParticipantBidDetails [simp]:
  "getGame (updateParticipantBidDetails s g u b h) g' = getGame s g'"
  by (simp add: to_modify)

lemma getGame_updateParticipantTokens [simp]:
  "getGame (updateParticipantTokens s g u n) g' = getGame s g'"
  by (simp add: to_modify)

lemma getGame_endGame:
  "getGame (fst (endGame s g)) g'
     = (if g' = g then map_option (\<lambda>gm. gm\<lparr>status := completed, endedAt := True\<rparr>) (getGame s g)
        else getGame s g')"
proof (cases "getGame s g")
  case None
  then show ?thesis by (auto simp: endGame_def)
next
  case (Some gm)
  have fk: "getGame (fold (\<lambda>participant st.
            if c participant then eliminateParticipant st g (userId participant) else st) ps s0) g'
        = getGame s0 g'" for c and ps :: "gameParticipant list" and s0
    by (rule fold_keeps [where h = "\<lambda>st. getGame st g'"]) simp
  from Some show ?thesis
    by (simp add: endGame_def Let_def updateGameStatus_modify setGameEndTime_modify fk)
qed

lemma endCurrentRound_unfold:
  assumes "getGame s g = Some gm" "status gm = in_progress"
  shows "endCurrentRound s g =
     (let participants = getParticipantsByGame s g;
          roundWinner = roundWinnerOf (getParticipantsByGame s g);
          maxHold = (case roundWinner of None \<Rightarrow> 0 | Some w \<Rightarrow> lastHoldTime w);
          s1 = (case roundWinner of None \<Rightarrow> s
                | Some w \<Rightarrow> updateParticipantTokens s g (id_p w) (tokensWon w + 1));
          e1 = (case roundWinner of
                  None \<Rightarrow> [ConsoleLog (NoActiveBidders g (currentRound gm))]
                | Some w \<Rightarrow> [ConsoleLog (RoundWinner g (currentRound gm) (id_p w) maxHold)]);
          s2 = updateGameRoundResults s1 g (map_option id_p roundWinner) maxHold
                 (currentRound gm + 1);
          s3 = fold (\<lambda>p st. updateParticipantBidDetails st g (id_p p) False 0) participants s2;
          isLast = (currentRound gm \<ge> totalRounds gm);
          e2 = broadcastToGame s3 g
                 (ROUND_END g (currentRound gm)
                    (case roundWinner of None \<Rightarrow> 0 | Some w \<Rightarrow> id_p w) maxHold
                    (if isLast then - 1 else currentRound gm + 1))
      in if isLast then (fst (endGame s3 g), e1 @ e2 @ snd (endGame s3 g))
         else (s3, e1 @ e2 @ [ScheduleRoundStart g (currentRound gm + 1)]))"
proof -
  have g1: "getGame (case roundWinnerOf (getParticipantsByGame s g) of None \<Rightarrow> s
                | Some w \<Rightarrow> updateParticipantTokens s g (id_p w) (tokensWon w + 1)) g = Some gm"
    using assms by (simp split: option.splits)
  have g3: "getGame (fold (\<lambda>p st. updateParticipantBidDetails st g (id_p p) False 0) ps s0) g
        = getGame s0 g" for ps :: "gameParticipant list" and s0
    by (rule fold_keeps [where h = "\<lambda>st. getGame st g"]) simp
  show ?thesis
    using assms g1
    by (simp add: endCurrentRound_def Let_def g3 updateGameRoundResults_modify split_beta)
qed

lemma getGame_endCurrentRound:
  assumes "getGame s g = Some gm" "status gm = in_progress"
  shows "getGame (fst (endCurrentRound s g)) g =
     Some (gm\<lparr>roundWinnerId := map_option id_p (roundWinnerOf (getParticipantsByGame s g)),
              maxHoldTimeLastRound := (case roundWinnerOf (getParticipantsByGame s g) of None \<Rightarrow> 0 | Some w \<Rightarrow> lastHoldTime w),
              currentRound := currentRound gm + 1,
              status := (if currentRound gm \<ge> totalRounds gm then completed else in_progress),
              endedAt := (currentRound gm \<ge> totalRounds gm \<or> endedAt gm)\<rparr>)"
proof -
  have g1: "getGame (case roundWinnerOf (getParticipantsByGame s g) of None \<Rightarrow> s
                | Some w \<Rightarrow> updateParticipantTokens s g (id_p w) (tokensWon w + 1)) g = Some gm"
    using assms by (simp split: option.splits)
  have g3: "getGame (fold (\<lambda>p st. updateParticipantBidDetails st g (id_p p) False 0) ps s0) g
        = getGame s0 g" for ps :: "gameParticipant list" and s0
    by (rule fold_keeps [where h = "\<lambda>st. getGame st g"]) simp
  show ?thesis
    using assms g1
    by (simp add: endCurrentRound_unfold [OF assms] Let_def g3 getGame_endGame
        updateGameRoundResults_modify)
qed

lemma broadcastToGame_only_sends:
  "e \<in> set (broadcastToGame s g m) \<Longrightarrow> (\<exists>ws. e = Send ws m) \<or> (\<exists>t. e = Detached t)"
  by (auto simp: broadcastToGame_def Let_def split: option.splits if_splits)

lemma broadcastToGame_no_countdown [simp]: "StartGameCountdown g' \<notin> set (broadcastToGame s g m)"
  using broadcastToGame_only_sends by blast

lemma broadcastToGame_no_log [simp]: "ConsoleLog l \<notin> set (broadcastToGame s g m)"
  using broadcastToGame_only_sends by blast

text \<open>
  Claim C5 (as amended). When the round has at least one active bidder, the winner that
  \<open>endCurrentRound\<close> records in the game row is a bidder of maximal hold duration, and every
  bidder after it in the bidder list held strictly shorter: on an exact tie for the
  maximum the winner is the last tied bidder of the list, not the first. (The callback
  of \<open>reduce\<close> keeps the running best only while it is strictly greater.)
\<close>

theorem endCurrentRound_winner_is_last_maximum:
  assumes "getGame s g = Some gm" "status gm = in_progress"
    and "bidders = filter (\<lambda>p. \<not> isEliminated p \<and> hasBidThisRound p) (getParticipantsByGame s g)"
    and "bidders \<noteq> []"
  shows "\<exists>pre w post. bidders = pre @ w # post
     \<and> (\<forall>p\<in>set pre. lastHoldTime p \<le> lastHoldTime w)
     \<and> (\<forall>p\<in>set post. lastHoldTime p < lastHoldTime w)
     \<and> map_option roundWinnerId (getGame (fst (endCurrentRound s g)) g) = Some (Some (id_p w))
     \<and> map_option maxHoldTimeLastRound (getGame (fst (endCurrentRound s g)) g)
         = Some (lastHoldTime w)"
proof -
  from reduce_longerHold_last_max [OF assms(4)]
  obtain pre w post where r: "reduce longerHold bidders = Some w"
    and dec: "bidders = pre @ w # post"
    and le: "\<forall>p\<in>set pre. lastHoldTime p \<le> lastHoldTime w"
    and lt: "\<forall>p\<in>set post. lastHoldTime p < lastHoldTime w"
    by blast
  have rw: "roundWinnerOf (getParticipantsByGame s g) = Some w"
    using r assms(3,4) by (simp add: roundWinnerOf_def Let_def)
  have "map_option roundWinnerId (getGame (fst (endCurrentRound s g)) g) = Some (Some (id_p w))"
    and "map_option maxHoldTimeLastRound (getGame (fst (endCurrentRound s g)) g)
         = Some (lastHoldTime w)"
    by (simp_all add: getGame_endCurrentRound [OF assms(1,2)] rw)
  with dec le lt show ?thesis by blast
qed

theorem endCurrentRound_winner_is_last_maximum_witness:
  "\<exists>pre w post.
     filter (\<lambda>p. \<not> isEliminated p \<and> hasBidThisRound p) (getParticipantsByGame tie_state 1)
       = pre @ w # post
     \<and> (\<forall>p\<in>set pre. lastHoldTime p \<le> lastHoldTime w)
     \<and> (\<forall>p\<in>set post. lastHoldTime p < lastHoldTime w)
     \<and> map_option roundWinnerId (getGame (fst (endCurrentRound tie_state 1)) 1)
         = Some (Some (id_p w))
     \<and> map_option maxHoldTimeLastRound (getGame (fst (endCurrentRound tie_state 1)) 1)
         = Some (lastHoldTime w)"
proof -
  have h1: "getGame tie_state 1 = Some (demo_game in_progress)"
    by (simp add: tie_state_def demo_defs getGame_def)
  have h2: "status (demo_game in_progress) = in_progress" by (simp add: demo_defs)
  have h4: "filter (\<lambda>p. \<not> isEliminated p \<and> hasBidThisRound p) (getParticipantsByGame tie_state 1)
              \<noteq> []"
    by (simp add: tie_state_def demo_defs getParticipantsByGame_def)
  from endCurrentRound_winner_is_last_maximum [OF h1 h2 refl h4] show ?thesis .
qed

text \<open>
  Claim C5 as stated fails: users 1 and 2 both held for 3000 ms, user 1 comes first in the
  bidder list, and the round goes to user 2.
\<close>

theorem endCurrentRound_tie_picks_later_bidder:
  "map (\<lambda>p. (userId p, id_p p, lastHoldTime p))
     (filter (\<lambda>p. \<not> isEliminated p \<and> hasBidThisRound p) (getParticipantsByGame tie_state 1))
     = [(1, 1, 3000), (2, 2, 3000)]
   \<and> map_option roundWinnerId (getGame (fst (endCurrentRound tie_state 1)) 1) = Some (Some 2)
   \<and> map (\<lambda>p. (userId p, tokensWon p))
       (getParticipantsByGame (fst (endCurrentRound tie_state 1)) 1) = [(1, 0), (2, 1)]"
  by (simp add: tie_state_def demo_defs storage_defs route_defs)

section \<open>Lobby: when the countdown starts\<close>

text \<open>
  Claim C3 (as amended). For a game in status \<open>waiting\<close>, \<open>handlePlayerReady\<close> stores the
  sender's flag and then starts the countdown if and only if the game has at least two
  participant rows, whatever their bot or elimination flags, and every one of them is
  ready.
\<close>

theorem handlePlayerReady_countdown_iff:
  assumes "getGame s g = Some gm" "status gm = waiting"
  shows "fst (handlePlayerReady s g u b) = updateParticipantReadyStatus s g u b
     \<and> (StartGameCountdown g \<in> set (snd (handlePlayerReady s g u b))
        \<longleftrightarrow> 2 \<le> length (getParticipantsByGame (fst (handlePlayerReady s g u b)) g)
            \<and> list_all isReady (getParticipantsByGame (fst (handlePlayerReady s g u b)) g))"
  using assms
  by (simp add: handlePlayerReady_def Let_def updateParticipantReadyStatus_modify)

theorem handlePlayerReady_countdown_iff_witness:
  "getGame lobby_with_bot 1 = Some (demo_game waiting)
   \<and> fst (handlePlayerReady lobby_with_bot 1 2 True)
       = updateParticipantReadyStatus lobby_with_bot 1 2 True
   \<and> (StartGameCountdown 1 \<in> set (snd (handlePlayerReady lobby_with_bot 1 2 True))
        \<longleftrightarrow> 2 \<le> length (getParticipantsByGame (fst (handlePlayerReady lobby_with_bot 1 2 True)) 1)
            \<and> list_all isReady (getParticipantsByGame (fst (handlePlayerReady lobby_with_bot 1 2 True)) 1))"
proof -
  have h1: "getGame lobby_with_bot 1 = Some (demo_game waiting)"
    by (simp add: lobby_with_bot_def demo_defs getGame_def)
  have h2: "status (demo_game waiting) = waiting" by (simp add: demo_defs)
  from handlePlayerReady_countdown_iff [OF h1 h2, of 2 True] h1 show ?thesis by simp
qed

text \<open>
  Claim C3 as stated fails: with one human and one bot in the lobby, the set of non-bot,
  non-eliminated participants has size 1, and the host's \<open>PLAYER_READY\<close> starts the
  countdown all the same.
\<close>

theorem handlePlayerReady_counts_bots:
  "map_option status (getGame lobby_with_bot 1) = Some waiting
   \<and> length (filter (\<lambda>p. \<not> isBot p \<and> \<not> isEliminated p)
        (getParticipantsByGame (fst (handlePlayerReady lobby_with_bot 1 2 True)) 1)) = 1
   \<and> StartGameCountdown 1 \<in> set (snd (handlePlayerReady lobby_with_bot 1 2 True))"
  by (simp add: lobby_with_bot_def demo_defs storage_defs route_defs)

section \<open>How participant rows evolve\<close>

lemma rows_evolve_refl: "preorder_rows R \<Longrightarrow> rows_evolve R s s"
  by (auto simp: rows_evolve_def preorder_rows_def)

lemma rows_evolve_trans:
  "preorder_rows R \<Longrightarrow> rows_evolve R s s1 \<Longrightarrow> rows_evolve R s1 s2 \<Longrightarrow> rows_evolve R s s2"
  unfolding rows_evolve_def preorder_rows_def by blast

lemma rows_evolve_same_rows:
  "gameParticipants s2 = gameParticipants s1 \<Longrightarrow> rows_evolve R s s1 \<Longrightarrow> rows_evolve R s s2"
  by (simp add: rows_evolve_def getParticipant_def)

lemma rows_evolve_modifyGame:
  "rows_evolve R s s1 \<Longrightarrow> rows_evolve R s (modifyGame s1 g f)"
  by (rule rows_evolve_same_rows) simp_all

lemma rows_evolve_modifyParticipant:
  assumes "preorder_rows R"
    and "\<And>p1. getParticipant s1 (fst k) (snd k) = Some p1 \<Longrightarrow> R p1 (f p1)"
    and "rows_evolve R s s1"
  shows "rows_evolve R s (modifyParticipant s1 k f)"
  unfolding rows_evolve_def
proof (intro allI impI)
  fix g u p assume "getParticipant s g u = Some p"
  with assms(3) obtain p1 where p1: "getParticipant s1 g u = Some p1" "R p p1"
    unfolding rows_evolve_def by blast
  show "\<exists>p'. getParticipant (modifyParticipant s1 k f) g u = Some p' \<and> R p p'"
  proof (cases "(g, u) = k")
    case True
    then have "R p1 (f p1)" using assms(2) p1(1) by auto
    with p1 assms(1) have "R p (f p1)" unfolding preorder_rows_def by blast
    with True p1 show ?thesis by simp
  next
    case False
    with p1 show ?thesis by simp
  qed
qed

lemma rows_evolve_fold:
  assumes "\<And>x st. rows_evolve R s st \<Longrightarrow> rows_evolve R s (f x st)"
    and "rows_evolve R s s1"
  shows "rows_evolve R s (fold f xs s1)"
  using assms(2) by (induction xs arbitrary: s1) (auto intro: assms(1))

lemma getParticipant_addParticipant:
  "getParticipant (fst (addParticipant s ins)) g u
     = (if (g, u) = (gameId ins, userId ins) then Some (snd (addParticipant s ins))
        else getParticipant s g u)"
  by (simp add: addParticipant_def Let_def getParticipant_def update_conv')

lemma rows_evolve_addParticipant:
  assumes "rows_evolve R s s1" "getParticipant s1 (gameId ins) (userId ins) = None"
  shows "rows_evolve R s (fst (addParticipant s1 ins))"
  unfolding rows_evolve_def
proof (intro allI impI)
  fix g u p assume "getParticipant s g u = Some p"
  with assms(1) obtain p1 where p1: "getParticipant s1 g u = Some p1" "R p p1"
    unfolding rows_evolve_def by blast
  with assms(2) have "(g, u) \<noteq> (gameId ins, userId ins)" by auto
  with p1 show "\<exists>p'. getParticipant (fst (addParticipant s1 ins)) g u = Some p' \<and> R p p'"
    by (auto simp: getParticipant_addParticipant)
qed

lemma rows_evolve_endGame:
  assumes "preorder_rows R" "\<And>p. R p (p\<lparr>isEliminated := True\<rparr>)" "rows_evolve R s s1"
  shows "rows_evolve R s (fst (endGame s1 g))"
proof (cases "getGame s1 g")
  case None
  then show ?thesis using assms(3) by (simp add: endGame_def)
next
  case (Some gm)
  have "rows_evolve R s (fold (\<lambda>participant st.
            if c participant then eliminateParticipant st g (userId participant) else st) ps s2)"
    if "rows_evolve R s s2" for c and ps :: "gameParticipant list" and s2
    using that
    by (rule rows_evolve_fold [rotated])
       (auto simp: eliminateParticipant_modify intro!: rows_evolve_modifyParticipant assms(1,2))
  then show ?thesis using Some assms(3)
    by (simp add: endGame_def Let_def to_modify rows_evolve_modifyGame)
qed

lemma rows_evolve_endCurrentRound:
  assumes "preorder_rows R" "\<And>p. R p (p\<lparr>isEliminated := True\<rparr>)"
    and "\<And>p n. R p (p\<lparr>tokensWon := n\<rparr>)"
    and "\<And>p b h. R p (p\<lparr>hasBidThisRound := b, lastHoldTime := h\<rparr>)"
    and "rows_evolve R s s1"
  shows "rows_evolve R s (fst (endCurrentRound s1 g))"
proof (cases "getGame s1 g")
  case None
  then show ?thesis using assms(5) by (simp add: endCurrentRound_def)
next
  case (Some gm)
  show ?thesis
  proof (cases "status gm = in_progress")
    case False
    with Some show ?thesis using assms(5) by (simp add: endCurrentRound_def)
  next
    case True
    have f: "rows_evolve R s (fold (\<lambda>p st. updateParticipantBidDetails st g (id_p p) False 0) ps s2)"
      if "rows_evolve R s s2" for ps :: "gameParticipant list" and s2
      using that
      by (rule rows_evolve_fold [rotated])
         (auto simp: updateParticipantBidDetails_modify
           intro!: rows_evolve_modifyParticipant assms(1,4))
    have s1': "rows_evolve R s (case roundWinnerOf (getParticipantsByGame s1 g) of None \<Rightarrow> s1
                | Some w \<Rightarrow> updateParticipantTokens s1 g (id_p w) (tokensWon w + 1))"
      using assms(5)
      by (auto simp: updateParticipantTokens_modify split: option.splits
          intro!: rows_evolve_modifyParticipant assms(1,3))
    show ?thesis
      by (simp add: endCurrentRound_unfold [OF Some True] Let_def updateGameRoundResults_modify)
         (intro conjI impI rows_evolve_endGame assms(1,2) f rows_evolve_modifyGame s1')
  qed
qed

lemma map_entry_comp:
  "AList.map_entry k f' (AList.map_entry k f xs) = AList.map_entry k (f' \<circ> f) xs"
  by (induction xs) auto

lemma map_entry_cong_at:
  "(\<And>v. map_of xs k = Some v \<Longrightarrow> f v = f' v) \<Longrightarrow> AList.map_entry k f xs = AList.map_entry k f' xs"
  by (induction xs) (auto split: if_splits)

lemma modifyParticipant_twice:
  "modifyParticipant (modifyParticipant s k f) k f' = modifyParticipant s k (f' \<circ> f)"
  by (simp add: modifyParticipant_def map_entry_comp)

lemma modifyParticipant_cong_at:
  "(\<And>p. getParticipant s (fst k) (snd k) = Some p \<Longrightarrow> f p = f' p)
   \<Longrightarrow> modifyParticipant s k f = modifyParticipant s k f'"
  unfolding modifyParticipant_def getParticipant_def
  by (simp add: map_entry_cong_at [of _ k f f'])

lemma handleBuzzerRelease_accepted:
  assumes "getGame s g = Some gm" "status gm = in_progress"
    and "getParticipant s g u = Some p" "\<not> isEliminated p" "\<not> hasBidThisRound p"
  shows "handleBuzzerRelease s g u h =
     (let s2 = recordBid s g u h;
          e1 = broadcastToGame s2 g (BUZZER_RELEASE g u h)
      in if allActivePlayersHaveBid (getParticipantsByGame s2 g)
         then (fst (endCurrentRound s2 g),
               e1 @ [ConsoleLog (AllActiveHaveBid_EndingRound g)] @ snd (endCurrentRound s2 g))
         else (s2, e1))"
proof -
  have s2: "updateParticipantBidDetails
              (case timeBank p of None \<Rightarrow> s
               | Some tb \<Rightarrow> updateParticipantTimeBank s g u (max 0 (tb - h / 1000))) g u True h
            = recordBid s g u h"
  proof (cases "timeBank p")
    case None
    then show ?thesis using assms(3)
      by (auto simp: recordBid_def updateParticipantBidDetails_modify
          intro!: modifyParticipant_cong_at)
  next
    case (Some tb)
    then show ?thesis using assms(3)
      by (auto simp: recordBid_def to_modify modifyParticipant_twice
          intro!: modifyParticipant_cong_at)
  qed
  show ?thesis unfolding handleBuzzerRelease_def Let_def using assms
    by (simp add: s2 split_beta)
qed

lemma rows_evolve_recordBid:
  assumes "preorder_rows R"
    and "\<And>p. R p (p\<lparr>timeBank := map_option (\<lambda>tb. max 0 (tb - h / 1000)) (timeBank p),
                      hasBidThisRound := True, lastHoldTime := h\<rparr>)"
    and "rows_evolve R s s1"
  shows "rows_evolve R s (recordBid s1 g u h)"
  unfolding recordBid_def by (rule rows_evolve_modifyParticipant) (use assms in auto)

lemma rows_evolve_handleBuzzerRelease:
  assumes "preorder_rows R" "\<And>p. R p (p\<lparr>isEliminated := True\<rparr>)"
    and "\<And>p n. R p (p\<lparr>tokensWon := n\<rparr>)"
    and "\<And>p b h. R p (p\<lparr>hasBidThisRound := b, lastHoldTime := h\<rparr>)"
    and "\<And>p. R p (p\<lparr>timeBank := map_option (\<lambda>tb. max 0 (tb - h / 1000)) (timeBank p),
                      hasBidThisRound := True, lastHoldTime := h\<rparr>)"
    and "rows_evolve R s s1"
  shows "rows_evolve R s (fst (handleBuzzerRelease s1 g u h))"
proof -
  show ?thesis
  proof (cases "\<exists>gm p. getGame s1 g = Some gm \<and> status gm = in_progress
                  \<and> getParticipant s1 g u = Some p \<and> \<not> isEliminated p \<and> \<not> hasBidThisRound p")
    case False
    then have "handleBuzzerRelease s1 g u h = (s1, [])"
      by (auto simp: handleBuzzerRelease_def split: option.splits)
    then show ?thesis using assms(6) by simp
  next
    case True
    then obtain gm p where acc: "getGame s1 g = Some gm" "status gm = in_progress"
        "getParticipant s1 g u = Some p" "\<not> isEliminated p" "\<not> hasBidThisRound p"
      by blast
    have r: "rows_evolve R s (recordBid s1 g u h)"
      by (rule rows_evolve_recordBid) (rule assms)+
    show ?thesis
      by (simp add: handleBuzzerRelease_accepted [OF acc] Let_def r)
         (intro impI rows_evolve_endCurrentRound assms(1,2,3,4) r)
  qed
qed

lemma rows_evolve_handlePlayerReady:
  assumes "preorder_rows R" "\<And>p b. R p (p\<lparr>isReady := b\<rparr>)" "rows_evolve R s s1"
  shows "rows_evolve R s (fst (handlePlayerReady s1 g u b))"
proof -
  have "fst (handlePlayerReady s1 g u b) = updateParticipantReadyStatus s1 g u b"
    by (simp add: handlePlayerReady_def Let_def split: option.splits)
  then show ?thesis
    by (simp add: updateParticipantReadyStatus_modify)
       (intro rows_evolve_modifyParticipant assms)
qed

lemma gameParticipants_addToGameRoom [simp]:
  "gameParticipants (fst (addToGameRoom s g u ws)) = gameParticipants s"
  by (simp add: addToGameRoom_def Let_def)

lemma rows_evolve_addToGameRoom:
  "rows_evolve R s s1 \<Longrightarrow> rows_evolve R s (fst (addToGameRoom s1 g u ws))"
  by (erule rows_evolve_same_rows [rotated]) simp

lemma rows_evolve_handleJoinGame:
  assumes "preorder_rows R" "\<And>p b. R p (p\<lparr>isReady := b\<rparr>)" "\<And>p b. R p (p\<lparr>isHost := b\<rparr>)"
    and "rows_evolve R s s1"
  shows "rows_evolve R s (fst (handleJoinGame s1 g u ws))"
proof (cases "getGame s1 g")
  case None
  then show ?thesis using assms(4) by (simp add: handleJoinGame_def)
next
  case (Some gm)
  show ?thesis
  proof (cases "getParticipant s1 g u")
    case None
    have a: "rows_evolve R s (fst (addParticipant s1 ins))"
      if "gameId ins = g" "userId ins = u" for ins
      using assms(4) None that by (intro rows_evolve_addParticipant) auto
    show ?thesis using Some None assms(4)
      by (auto simp: handleJoinGame_def Let_def split_beta updateGameHost_modify
          split: option.splits
          intro!: rows_evolve_addToGameRoom rows_evolve_modifyGame a)
  next
    case (Some p)
    note P = this
    have b: "rows_evolve R s (updateGameHost (updateParticipantHostStatus s1 g u True) g u)"
      by (simp add: to_modify) (intro rows_evolve_modifyGame rows_evolve_modifyParticipant assms)
    have c: "rows_evolve R s
               (updateParticipantReadyStatus
                  (updateGameHost (updateParticipantHostStatus s1 g u True) g u) g u True)"
      by (simp add: to_modify) (intro rows_evolve_modifyGame rows_evolve_modifyParticipant assms)
    show ?thesis using \<open>getGame s1 g = Some gm\<close> P assms(4) b c
      by (auto simp: handleJoinGame_def Let_def split: option.splits
          intro!: rows_evolve_addToGameRoom)
  qed
qed

lemma gameParticipants_startGame [simp]:
  "gameParticipants (fst (startGame s g)) = gameParticipants s"
  by (simp add: startGame_def Let_def createRound_def to_modify split: option.splits)

lemma rows_evolve_startGame:
  "rows_evolve R s s1 \<Longrightarrow> rows_evolve R s (fst (startGame s1 g))"
  by (erule rows_evolve_same_rows [rotated]) simp

lemma gameParticipants_cleanupGames [simp]:
  "gameParticipants (cleanupGames s) = gameParticipants s"
  unfolding cleanupGames_def Let_def
  by (rule fold_keeps) (simp add: to_modify)

lemma gameParticipants_handleEmptyGame [simp]:
  "gameParticipants (handleEmptyGame s g) = gameParticipants s"
  by (simp add: handleEmptyGame_def Let_def to_modify split: option.splits)

lemma gameParticipants_onClose [simp]:
  "gameParticipants (fst (onClose s g u ws)) = gameParticipants s"
  by (simp add: onClose_def Let_def split: option.splits)

lemma rows_evolve_step:
  assumes "tolerates_bookkeeping R" "tolerates_releases R [a]" "rows_evolve R s s1"
  shows "rows_evolve R s (fst (step s1 a))"
proof (cases a)
  case (Msg_JOIN_GAME g u ws)
  then show ?thesis using assms
    by (auto simp: tolerates_bookkeeping_def intro!: rows_evolve_handleJoinGame)
next
  case (Msg_PLAYER_READY g u b)
  then show ?thesis using assms
    by (auto simp: tolerates_bookkeeping_def intro!: rows_evolve_handlePlayerReady)
next
  case (Msg_BUZZER_HOLD g u)
  then show ?thesis using assms by (simp add: handleBuzzerHold_def)
next
  case (Msg_BUZZER_RELEASE g u h)
  then show ?thesis using assms
    by (auto simp: tolerates_bookkeeping_def intro!: rows_evolve_handleBuzzerRelease)
next
  case (Conn_close g u ws)
  then show ?thesis using assms(3) by (auto intro: rows_evolve_same_rows [rotated])
next
  case (Timer_startGame g)
  then show ?thesis using assms(3) by (auto intro: rows_evolve_startGame)
next
  case Timer_cleanupGames
  then show ?thesis using assms(3) by (auto intro: rows_evolve_same_rows [rotated])
next
  case (Run_handleEmptyGame g)
  then show ?thesis using assms(3) by (auto intro: rows_evolve_same_rows [rotated])
qed

lemma tolerates_releases_Cons:
  "tolerates_releases R (a # as) \<Longrightarrow> tolerates_releases R [a] \<and> tolerates_releases R as"
  by (cases a) auto

lemma rows_evolve_run:
  assumes "tolerates_bookkeeping R"
  shows "tolerates_releases R as \<Longrightarrow> rows_evolve R s s1 \<Longrightarrow> rows_evolve R s (fst (run s1 as))"
proof (induction as arbitrary: s1)
  case Nil
  then show ?case by simp
next
  case (Cons a as)
  from tolerates_releases_Cons [OF Cons.prems(1)]
  have 1: "tolerates_releases R [a]" and 2: "tolerates_releases R as" by auto
  have "rows_evolve R s (fst (step s1 a))"
    by (rule rows_evolve_step [OF assms 1 Cons.prems(2)])
  from Cons.IH [OF 2 this] show ?case by (simp add: split_beta)
qed

section \<open>The time budget\<close>

lemma run_append: "fst (run s (as @ bs)) = fst (run (fst (run s as)) bs)"
  by (induction as arbitrary: s) (simp_all add: split_beta)

lemma tolerates_bookkeeping_budget_shrinks: "tolerates_bookkeeping budget_shrinks"
  unfolding tolerates_bookkeeping_def preorder_rows_def budget_shrinks_def
  by (auto split: option.splits)

lemma tolerates_releases_budget_shrinks:
  "nonNegativeHolds as \<Longrightarrow> tolerates_releases budget_shrinks as"
proof (induction as)
  case Nil
  then show ?case by simp
next
  case (Cons a as)
  show ?case
  proof (cases a)
    case (Msg_BUZZER_RELEASE g u h)
    with Cons.prems have h: "0 \<le> h" and rest: "nonNegativeHolds as" by auto
    have "budget_shrinks p (p\<lparr>timeBank := map_option (\<lambda>tb. max 0 (tb - h / 1000)) (timeBank p),
                    hasBidThisRound := True, lastHoldTime := h\<rparr>)" for p
      using h by (auto simp: budget_shrinks_def split: option.splits)
    with Cons.IH [OF rest] Msg_BUZZER_RELEASE show ?thesis by simp
  qed (use Cons in auto)
qed

lemma budget_run:
  assumes "nonNegativeHolds as" "getParticipant s g u = Some p" "timeBank p = Some t" "0 \<le> t"
  shows "\<exists>p' t'. getParticipant (fst (run s as)) g u = Some p' \<and> timeBank p' = Some t'
           \<and> 0 \<le> t' \<and> t' \<le> t"
proof -
  have "rows_evolve budget_shrinks s (fst (run s as))"
    by (intro rows_evolve_run tolerates_bookkeeping_budget_shrinks
        tolerates_releases_budget_shrinks assms(1) rows_evolve_refl)
       (use tolerates_bookkeeping_budget_shrinks in \<open>simp add: tolerates_bookkeeping_def\<close>)
  with assms(2) obtain p' where "getParticipant (fst (run s as)) g u = Some p'"
    "budget_shrinks p p'"
    unfolding rows_evolve_def by blast
  with assms(3,4) show ?thesis by (auto simp: budget_shrinks_def)
qed

lemma budget_after_release:
  assumes "getGame s g = Some gm" "status gm = in_progress"
    and "getParticipant s g u = Some p" "\<not> isEliminated p" "\<not> hasBidThisRound p"
  shows "map_option timeBank (getParticipant (fst (handleBuzzerRelease s g u h)) g u)
           = Some (map_option (\<lambda>tb. max 0 (tb - h / 1000)) (timeBank p))"
proof -
  let ?s2 = "recordBid s g u h"
  have pre: "preorder_rows same_budget" by (simp add: preorder_rows_def same_budget_def)
  have row: "map_option timeBank (getParticipant ?s2 g u)
               = Some (map_option (\<lambda>tb. max 0 (tb - h / 1000)) (timeBank p))"
    using assms(3) by (simp add: recordBid_def)
  have ev: "rows_evolve same_budget ?s2 (fst (endCurrentRound ?s2 g))"
    by (intro rows_evolve_endCurrentRound rows_evolve_refl pre) (simp_all add: same_budget_def)
  from row obtain p2 where p2: "getParticipant ?s2 g u = Some p2"
    "timeBank p2 = map_option (\<lambda>tb. max 0 (tb - h / 1000)) (timeBank p)"
    by (cases "getParticipant ?s2 g u") auto
  from ev p2(1) obtain p3 where p3: "getParticipant (fst (endCurrentRound ?s2 g)) g u = Some p3"
    "same_budget p2 p3"
    unfolding rows_evolve_def by blast
  then have "map_option timeBank (getParticipant (fst (endCurrentRound ?s2 g)) g u)
               = Some (map_option (\<lambda>tb. max 0 (tb - h / 1000)) (timeBank p))"
    using p2(2) by (simp add: same_budget_def)
  with row show ?thesis
    by (simp add: handleBuzzerRelease_accepted [OF assms] Let_def)
qed

text \<open>
  What the handler does to a budget. A \<open>BUZZER_RELEASE\<close> that the handler accepts, with hold
  duration \<open>h\<close>, sets the sender's remaining budget to \<open>max 0 (previous - h / 1000)\<close>. Along
  a run of the server in which every release carries a hold duration of at least zero, a
  non-negative budget stays non-negative and never grows.
\<close>

lemma timeBank_with_non_negative_holds:
  assumes "getParticipant s g u = Some p" "timeBank p = Some t"
  shows "(\<forall>gm h. getGame s g = Some gm \<and> status gm = in_progress
                  \<and> \<not> isEliminated p \<and> \<not> hasBidThisRound p
            \<longrightarrow> map_option timeBank (getParticipant (fst (handleBuzzerRelease s g u h)) g u)
                  = Some (Some (max 0 (t - h / 1000))))
     \<and> (\<forall>as bs. 0 \<le> t \<and> nonNegativeHolds (as @ bs)
            \<longrightarrow> (\<exists>p1 t1 p2 t2.
                   getParticipant (fst (run s as)) g u = Some p1 \<and> timeBank p1 = Some t1
                   \<and> getParticipant (fst (run s (as @ bs))) g u = Some p2 \<and> timeBank p2 = Some t2
                   \<and> 0 \<le> t2 \<and> t2 \<le> t1 \<and> t1 \<le> t))"
proof (intro conjI allI impI)
  fix gm h
  assume "getGame s g = Some gm \<and> status gm = in_progress
            \<and> \<not> isEliminated p \<and> \<not> hasBidThisRound p"
  then show "map_option timeBank (getParticipant (fst (handleBuzzerRelease s g u h)) g u)
               = Some (Some (max 0 (t - h / 1000)))"
    using budget_after_release [of s g gm u p h] assms by simp
next
  fix as bs
  assume a: "0 \<le> t \<and> nonNegativeHolds (as @ bs)"
  have nn: "nonNegativeHolds as" "nonNegativeHolds bs"
    using a by (induction as rule: nonNegativeHolds.induct) auto
  from budget_run [OF nn(1) assms] a obtain p1 t1
    where 1: "getParticipant (fst (run s as)) g u = Some p1" "timeBank p1 = Some t1"
      "0 \<le> t1" "t1 \<le> t" by blast
  from budget_run [OF nn(2) 1(1,2,3)] obtain p2 t2
    where 2: "getParticipant (fst (run (fst (run s as)) bs)) g u = Some p2" "timeBank p2 = Some t2"
      "0 \<le> t2" "t2 \<le> t1" by blast
  from 1 2 show "\<exists>p1 t1 p2 t2.
       getParticipant (fst (run s as)) g u = Some p1 \<and> timeBank p1 = Some t1
       \<and> getParticipant (fst (run s (as @ bs))) g u = Some p2 \<and> timeBank p2 = Some t2
       \<and> 0 \<le> t2 \<and> t2 \<le> t1 \<and> t1 \<le> t"
    by (simp add: run_append)
qed

lemma timeBank_with_non_negative_holds_example:
  "getParticipant round_open 1 1 = Some (demo_participant 1 1 False False 0)
   \<and> map_option timeBank (getParticipant (fst (handleBuzzerRelease round_open 1 1 4000)) 1 1)
       = Some (Some 6)
   \<and> (\<exists>p1 t1 p2 t2.
         getParticipant (fst (run round_open [Msg_BUZZER_RELEASE 1 1 4000])) 1 1 = Some p1
         \<and> timeBank p1 = Some t1
         \<and> getParticipant (fst (run round_open
               ([Msg_BUZZER_RELEASE 1 1 4000] @ [Msg_BUZZER_RELEASE 1 2 2500]))) 1 1 = Some p2
         \<and> timeBank p2 = Some t2 \<and> 0 \<le> t2 \<and> t2 \<le> t1 \<and> t1 \<le> 10)"
proof -
  have h1: "getParticipant round_open 1 1 = Some (demo_participant 1 1 False False 0)"
    by (simp add: round_open_def demo_defs getParticipant_def)
  have h2: "timeBank (demo_participant 1 1 False False 0) = Some 10"
    by (simp add: demo_defs)
  have g: "getGame round_open 1 = Some (demo_game in_progress)"
    by (simp add: round_open_def demo_defs getGame_def)
  note T = timeBank_with_non_negative_holds [OF h1 h2]
  have gs: "getGame round_open 1 = Some (demo_game in_progress)
              \<and> status (demo_game in_progress) = in_progress
              \<and> \<not> isEliminated (demo_participant 1 1 False False 0)
              \<and> \<not> hasBidThisRound (demo_participant 1 1 False False 0)"
    using g by (simp add: demo_defs)
  from T [THEN conjunct1, rule_format, OF gs, of 4000]
  have "map_option timeBank (getParticipant (fst (handleBuzzerRelease round_open 1 1 4000)) 1 1)
       = Some (Some 6)"
    by simp
  moreover have nn: "(0::rat) \<le> 10
      \<and> nonNegativeHolds ([Msg_BUZZER_RELEASE 1 1 4000] @ [Msg_BUZZER_RELEASE 1 2 2500])"
    by simp
  from T [THEN conjunct2, rule_format, OF nn]
  have "\<exists>p1 t1 p2 t2.
         getParticipant (fst (run round_open [Msg_BUZZER_RELEASE 1 1 4000])) 1 1 = Some p1
         \<and> timeBank p1 = Some t1
         \<and> getParticipant (fst (run round_open
               ([Msg_BUZZER_RELEASE 1 1 4000] @ [Msg_BUZZER_RELEASE 1 2 2500]))) 1 1 = Some p2
         \<and> timeBank p2 = Some t2 \<and> 0 \<le> t2 \<and> t2 \<le> t1 \<and> t1 \<le> 10" .
  ultimately show ?thesis using h1 by simp
qed

text \<open>
  Claim C4. The claim asks that a participant's remaining budget never grows and is never
  negative. \<open>handleBuzzerRelease\<close> charges \<open>max 0 (timeBank - holdTime / 1000)\<close> without looking
  at the sign of \<open>holdTime\<close>, and the dispatcher hands it any number. In a running game, a
  release with \<open>holdTime = -5000\<close> from user 1, who has not bid yet, raises that user's budget
  from 10 to 15 seconds.
\<close>

theorem negative_hold_raises_timeBank:
  "map_option timeBank (getParticipant round_open 1 1) = Some (Some 10)
   \<and> map_option timeBank
       (getParticipant (fst (handleBuzzerRelease round_open 1 1 (- 5000))) 1 1) = Some (Some 15)"
  by (simp add: round_open_def demo_defs storage_defs route_defs)

section \<open>The Lifecycle Sweeper\<close>

text \<open>
  Claim C9. The claim asks that every open game with fewer than two participants is
  completed by a sweep. \<open>cleanupGames\<close> takes its list of games from \<open>getPublicGames\<close>, which
  keeps only games that are public and \<open>waiting\<close>. A private lobby with a single participant
  is left \<open>waiting\<close>, and a running game with a single participant is left \<open>in_progress\<close>;
  \<open>handleEmptyGame\<close>, which applies the same test to one game, completes both.
\<close>

theorem cleanupGames_skips_private_and_running_games:
  "length (getParticipantsByGame private_lobby 1) = 1
   \<and> map_option status (getGame private_lobby 1) = Some waiting
   \<and> map_option status (getGame (cleanupGames private_lobby) 1) = Some waiting
   \<and> map_option status (getGame (handleEmptyGame private_lobby 1) 1) = Some completed
   \<and> length (getParticipantsByGame lone_player_running 1) = 1
   \<and> map_option status (getGame lone_player_running 1) = Some in_progress
   \<and> map_option status (getGame (cleanupGames lone_player_running) 1) = Some in_progress
   \<and> map_option status (getGame (handleEmptyGame lone_player_running 1) 1) = Some completed"
  by (simp add: private_lobby_def lone_player_running_def demo_defs storage_defs route_defs)

section \<open>Game completion\<close>

lemma math_min_Min: "xs \<noteq> [] \<Longrightarrow> math_min xs = Some (Min (set xs))"
proof (cases xs)
  case Nil
  then show "xs \<noteq> [] \<Longrightarrow> ?thesis" by simp
next
  case (Cons x ys)
  have "fold min ys x = Min (set (x # ys))"
    by (simp only: Min.set_eq_fold)
  with Cons show ?thesis by simp
qed

lemma compareRankings_le_0: "compareRankings a b \<le> 0 \<longleftrightarrow> ranks_before a b"
  by (auto simp: compareRankings_def ranks_before_def)

lemma ranks_before_total: "ranks_before a b \<or> ranks_before b a"
  by (auto simp: ranks_before_def)

lemma ranks_before_trans: "ranks_before a b \<Longrightarrow> ranks_before b c \<Longrightarrow> ranks_before a c"
  by (auto simp: ranks_before_def)

lemma set_insert_by [simp]: "set (insert_by cmp x xs) = insert x (set xs)"
  by (induction xs) auto

lemma mset_insert_by [simp]: "mset (insert_by cmp x xs) = add_mset x (mset xs)"
  by (induction xs) auto

lemma mset_sort_by [simp]: "mset (sort_by cmp xs) = mset xs"
  by (induction xs) (simp_all add: sort_by_def)

lemma sorted_insert_by_rankings:
  "sorted_wrt ranks_before xs \<Longrightarrow> sorted_wrt ranks_before (insert_by compareRankings x xs)"
proof (induction xs)
  case Nil
  then show ?case by simp
next
  case (Cons y ys)
  show ?case
  proof (cases "compareRankings x y \<le> 0")
    case True
    then have xy: "ranks_before x y" by (simp add: compareRankings_le_0)
    with Cons.prems have "\<forall>z\<in>set ys. ranks_before x z"
      by (auto intro: ranks_before_trans)
    with True xy Cons.prems show ?thesis by simp
  next
    case False
    then have "ranks_before y x" using ranks_before_total [of x y]
      by (simp add: compareRankings_le_0)
    with False Cons show ?thesis by auto
  qed
qed

lemma sorted_sort_by_rankings: "sorted_wrt ranks_before (sort_by compareRankings xs)"
  by (induction xs) (simp_all add: sort_by_def sorted_insert_by_rankings)

lemma wf_same_user_same_row:
  assumes "participants_wf s" "p \<in> set (getParticipantsByGame s g)"
    "q \<in> set (getParticipantsByGame s g)" "userId p = userId q"
  shows "p = q"
proof -
  from assms(2) obtain kp where kp: "(kp, p) \<in> set (gameParticipants s)" "gameId p = g"
    by (auto simp: getParticipantsByGame_def)
  from assms(3) obtain kq where kq: "(kq, q) \<in> set (gameParticipants s)" "gameId q = g"
    by (auto simp: getParticipantsByGame_def)
  have "kp = (gameId p, userId p)" "kq = (gameId q, userId q)"
    using assms(1) kp(1) kq(1) unfolding participants_wf_def list_all_iff by force+
  with kp(2) kq(2) assms(4) have "kp = kq" by simp
  with assms(1) kp(1) kq(1) show ?thesis
    by (auto simp: participants_wf_def dest: eq_key_imp_eq_value)
qed

lemma gameId_getParticipantsByGame:
  "p \<in> set (getParticipantsByGame s g) \<Longrightarrow> gameId p = g"
  by (simp add: getParticipantsByGame_def)

lemma fold_eliminate_rows:
  assumes "participants_wf s1"
  shows "getParticipantsByGame
           (fold (\<lambda>q st. if c q then eliminateParticipant st g (userId q) else st) qs s1) g
         = map (\<lambda>p. if \<exists>q\<in>set qs. c q \<and> userId q = userId p
                     then p\<lparr>isEliminated := True\<rparr> else p)
             (getParticipantsByGame s1 g)"
  using assms
proof (induction qs arbitrary: s1)
  case Nil
  then show ?case by simp
next
  case (Cons q qs)
  show ?case
  proof (cases "c q")
    case False
    with Cons show ?thesis by simp
  next
    case True
    let ?s = "modifyParticipant s1 (g, userId q) (\<lambda>p. p\<lparr>isEliminated := True\<rparr>)"
    have wf: "participants_wf ?s"
      by (intro participants_wf_modifyParticipant Cons.prems) simp
    have rows: "getParticipantsByGame ?s g
                  = map (\<lambda>p. if userId p = userId q then p\<lparr>isEliminated := True\<rparr> else p)
                      (getParticipantsByGame s1 g)"
      by (simp add: getParticipantsByGame_modifyParticipant Cons.prems
          gameId_getParticipantsByGame cong: map_cong)
    show ?thesis
      using True Cons.IH [OF wf]
      by (simp add: eliminateParticipant_modify rows comp_def) (auto intro!: map_cong)
  qed
qed

lemma users_fold_eliminate [simp]:
  "users (fold (\<lambda>q st. if c q then eliminateParticipant st g (userId q) else st) qs s) = users s"
  by (rule fold_keeps) (simp add: eliminateParticipant_modify)

lemma endGame_rows:
  assumes "participants_wf s" "getGame s g = Some gm"
  shows "getParticipantsByGame (fst (endGame s g)) g
         = map (\<lambda>p. if tokensWon p = Min (tokensWon ` set (getParticipantsByGame s g))
                     then p\<lparr>isEliminated := True\<rparr> else p)
             (getParticipantsByGame s g)"
proof (cases "getParticipantsByGame s g = []")
  case True
  with assms(2) show ?thesis by (simp add: endGame_def Let_def to_modify)
next
  case False
  let ?ps = "getParticipantsByGame s g"
  let ?low = "Min (tokensWon ` set ?ps)"
  have mm: "math_min (map tokensWon ?ps) = Some ?low"
    using False by (simp add: math_min_Min)
  have "getParticipantsByGame (fst (endGame s g)) g
          = map (\<lambda>p. if \<exists>q\<in>set ?ps. tokensWon q = ?low \<and> userId q = userId p
                      then p\<lparr>isEliminated := True\<rparr> else p) ?ps"
    using assms
    by (simp add: endGame_def Let_def mm updateGameStatus_modify setGameEndTime_modify
        fold_eliminate_rows)
  also have "\<dots> = map (\<lambda>p. if tokensWon p = ?low then p\<lparr>isEliminated := True\<rparr> else p) ?ps"
  proof (rule map_cong [OF refl])
    fix p assume p: "p \<in> set ?ps"
    have "(\<exists>q\<in>set ?ps. tokensWon q = ?low \<and> userId q = userId p) \<longleftrightarrow> tokensWon p = ?low"
      using p wf_same_user_same_row [OF assms(1) _ p] by blast
    then show "(if \<exists>q\<in>set ?ps. tokensWon q = ?low \<and> userId q = userId p
                then p\<lparr>isEliminated := True\<rparr> else p)
             = (if tokensWon p = ?low then p\<lparr>isEliminated := True\<rparr> else p)"
      by simp
  qed
  finally show ?thesis .
qed

lemma endGame_effects:
  assumes "getGame s g = Some gm"
  shows "snd (endGame s g)
         = broadcastToGame (fst (endGame s g)) g
             (GAME_END g (sort_by compareRankings
                (map (toRanking s) (getParticipantsByGame s g))))"
proof -
  have tr: "toRanking (fold (\<lambda>q st. if c q then eliminateParticipant st g (userId q) else st) qs
                    (modifyGame (modifyGame s g f1) g f2)) = toRanking s"
    for c and qs :: "gameParticipant list" and f1 f2
    by (rule ext) (simp add: toRanking_def getUser_def)
  from assms show ?thesis
    by (simp add: endGame_def Let_def updateGameStatus_modify setGameEndTime_modify tr)
qed

lemma gameClients_endGame [simp]: "gameClients (fst (endGame s g)) = gameClients s"
proof (cases "getGame s g")
  case None
  then show ?thesis by (simp add: endGame_def)
next
  case (Some gm)
  have fk: "gameClients (fold (\<lambda>participant st.
            if c participant then eliminateParticipant st g (userId participant) else st) ps s0)
        = gameClients s0" for c and ps :: "gameParticipant list" and s0
    by (rule fold_keeps) (simp add: eliminateParticipant_modify)
  from Some show ?thesis
    by (simp add: endGame_def Let_def updateGameStatus_modify setGameEndTime_modify fk)
qed

lemma broadcast_GAME_END:
  "broadcastToGame s g (GAME_END g rs)
     = (case map_of (gameClients s) g of
          None \<Rightarrow> []
        | Some clients \<Rightarrow>
            map (\<lambda>(u, ws). Send ws (GAME_END g rs))
              (filter (\<lambda>(u, ws). readyStateOpen ws) clients)
            @ (if filter (\<lambda>(u, ws). readyStateOpen ws) clients = []
               then [Detached (Task_handleEmptyGame g)] else []))"
  by (simp add: broadcastToGame_def Let_def is_GAME_STATE_def is_GAME_CANCELLED_def
      is_resync_trigger_def split: option.splits)

text \<open>
  Claim C7. When \<open>endGame\<close> runs on an existing game, the game becomes \<open>completed\<close>; every
  participant row of the game whose \<open>tokensWon\<close> equals the minimum over all rows of the game
  is marked eliminated (all rows tied at the minimum together) and every other row is left
  as it was. What the call emits is exactly one \<open>GAME_END\<close> message to every open socket of
  the game's room, in room order (with no open socket only the detached empty-game check,
  with no room nothing), all carrying the same rankings list. That list has one entry per
  participant row of the game, holding the row's user id, the user's names (empty when the
  user is unknown), the row's \<open>tokensWon\<close> and its \<open>timeBank\<close> (0 for a \<open>null\<close> budget), and it is
  ordered by tokens won descending and, among equal tokens, by remaining time budget
  descending.
\<close>

theorem endGame_eliminates_minimum_and_ranks:
  assumes "participants_wf s" "getGame s g = Some gm"
  shows "map_option status (getGame (fst (endGame s g)) g) = Some completed
     \<and> getParticipantsByGame (fst (endGame s g)) g
         = map (\<lambda>p. if tokensWon p = Min (tokensWon ` set (getParticipantsByGame s g))
                     then p\<lparr>isEliminated := True\<rparr> else p)
             (getParticipantsByGame s g)
     \<and> (\<exists>rankings.
           snd (endGame s g)
             = (case map_of (gameClients s) g of
                  None \<Rightarrow> []
                | Some clients \<Rightarrow>
                    map (\<lambda>(u, ws). Send ws (GAME_END g rankings))
                      (filter (\<lambda>(u, ws). readyStateOpen ws) clients)
                    @ (if filter (\<lambda>(u, ws). readyStateOpen ws) clients = []
                       then [Detached (Task_handleEmptyGame g)] else []))
           \<and> mset rankings
               = mset (map (\<lambda>p. \<lparr>r_userId = userId p,
                                  r_username = (case map_of (users s) (userId p) of
                                                  None \<Rightarrow> '''' | Some usr \<Rightarrow> username usr),
                                  r_displayName = (case map_of (users s) (userId p) of
                                                  None \<Rightarrow> '''' | Some usr \<Rightarrow> displayName usr),
                                  tokens = tokensWon p,
                                  timeRemaining = (case timeBank p of None \<Rightarrow> 0 | Some t \<Rightarrow> t)\<rparr>)
                         (getParticipantsByGame s g))
           \<and> sorted_wrt (\<lambda>a b. tokens a > tokens b
                 \<or> (tokens a = tokens b \<and> timeRemaining a \<ge> timeRemaining b)) rankings)"
proof -
  let ?rs = "sort_by compareRankings (map (toRanking s) (getParticipantsByGame s g))"
  have sorted: "sorted_wrt (\<lambda>a b. tokens a > tokens b
                 \<or> (tokens a = tokens b \<and> timeRemaining a \<ge> timeRemaining b)) ?rs"
    using sorted_sort_by_rankings [of "map (toRanking s) (getParticipantsByGame s g)"]
    by (simp add: ranks_before_def [abs_def])
  have entries: "mset ?rs
      = mset (map (\<lambda>p. \<lparr>r_userId = userId p,
                         r_username = (case map_of (users s) (userId p) of
                                         None \<Rightarrow> '''' | Some usr \<Rightarrow> username usr),
                         r_displayName = (case map_of (users s) (userId p) of
                                         None \<Rightarrow> '''' | Some usr \<Rightarrow> displayName usr),
                         tokens = tokensWon p,
                         timeRemaining = (case timeBank p of None \<Rightarrow> 0 | Some t \<Rightarrow> t)\<rparr>)
                (getParticipantsByGame s g))"
    by (simp add: toRanking_def [abs_def] getUser_def)
  have sent: "snd (endGame s g)
             = (case map_of (gameClients s) g of
                  None \<Rightarrow> []
                | Some clients \<Rightarrow>
                    map (\<lambda>(u, ws). Send ws (GAME_END g ?rs))
                      (filter (\<lambda>(u, ws). readyStateOpen ws) clients)
                    @ (if filter (\<lambda>(u, ws). readyStateOpen ws) clients = []
                       then [Detached (Task_handleEmptyGame g)] else []))"
    by (simp add: endGame_effects [OF assms(2)] broadcast_GAME_END)
  from sent entries sorted have "\<exists>rankings.
           snd (endGame s g)
             = (case map_of (gameClients s) g of
                  None \<Rightarrow> []
                | Some clients \<Rightarrow>
                    map (\<lambda>(u, ws). Send ws (GAME_END g rankings))
                      (filter (\<lambda>(u, ws). readyStateOpen ws) clients)
                    @ (if filter (\<lambda>(u, ws). readyStateOpen ws) clients = []
                       then [Detached (Task_handleEmptyGame g)] else []))
           \<and> mset rankings
               = mset (map (\<lambda>p. \<lparr>r_userId = userId p,
                                  r_username = (case map_of (users s) (userId p) of
                                                  None \<Rightarrow> '''' | Some usr \<Rightarrow> username usr),
                                  r_displayName = (case map_of (users s) (userId p) of
                                                  None \<Rightarrow> '''' | Some usr \<Rightarrow> displayName usr),
                                  tokens = tokensWon p,
                                  timeRemaining = (case timeBank p of None \<Rightarrow> 0 | Some t \<Rightarrow> t)\<rparr>)
                         (getParticipantsByGame s g))
           \<and> sorted_wrt (\<lambda>a b. tokens a > tokens b
                 \<or> (tokens a = tokens b \<and> timeRemaining a \<ge> timeRemaining b)) rankings"
    by blast
  then show ?thesis
    using endGame_rows [OF assms] assms(2)
    by (simp add: getGame_endGame)
qed

theorem endGame_eliminates_minimum_and_ranks_witness:
  "participants_wf final_scores
   \<and> map (\<lambda>p. (userId p, isEliminated p)) (getParticipantsByGame (fst (endGame final_scores 1)) 1)
       = [(1, False), (2, True), (3, True)]
   \<and> (\<exists>rankings.
         snd (endGame final_scores 1)
           = [Send (WebSocket 1 True) (GAME_END 1 rankings),
              Send (WebSocket 2 True) (GAME_END 1 rankings)]
         \<and> mset (map (\<lambda>r. (r_userId r, r_username r, tokens r, timeRemaining r)) rankings)
             = {#(1, ''alice'', 2, 3), (2, ''bob'', 1, 5), (3, '''', 1, 8)#}
         \<and> sorted_wrt (\<lambda>a b. tokens a > tokens b
               \<or> (tokens a = tokens b \<and> timeRemaining a \<ge> timeRemaining b)) rankings)
   \<and> snd (endGame final_scores 1)
       = [Send (WebSocket 1 True) (GAME_END 1
            [\<lparr>r_userId = 1, r_username = ''alice'', r_displayName = ''Alice'',
               tokens = 2, timeRemaining = 3\<rparr>,
             \<lparr>r_userId = 3, r_username = '''', r_displayName = '''',
               tokens = 1, timeRemaining = 8\<rparr>,
             \<lparr>r_userId = 2, r_username = ''bob'', r_displayName = ''Bob'',
               tokens = 1, timeRemaining = 5\<rparr>]),
          Send (WebSocket 2 True) (GAME_END 1
            [\<lparr>r_userId = 1, r_username = ''alice'', r_displayName = ''Alice'',
               tokens = 2, timeRemaining = 3\<rparr>,
             \<lparr>r_userId = 3, r_username = '''', r_displayName = '''',
               tokens = 1, timeRemaining = 8\<rparr>,
             \<lparr>r_userId = 2, r_username = ''bob'', r_displayName = ''Bob'',
               tokens = 1, timeRemaining = 5\<rparr>])]"
proof -
  have wf: "participants_wf final_scores"
    by (simp add: final_scores_def demo_defs participants_wf_def)
  have g: "getGame final_scores 1 = Some (demo_game in_progress)"
    by (simp add: final_scores_def demo_defs getGame_def)
  have ps: "getParticipantsByGame final_scores 1
     = [(demo_participant 1 1 False False 0)\<lparr>tokensWon := 2, timeBank := Some 3\<rparr>,
        (demo_participant 2 2 False False 0)\<lparr>tokensWon := 1, timeBank := Some 5\<rparr>,
        (demo_participant 3 3 False False 0)\<lparr>tokensWon := 1, timeBank := Some 8\<rparr>]"
    by (simp add: final_scores_def demo_defs getParticipantsByGame_def)
  have room: "map_of (gameClients final_scores) 1
                = Some [(1, WebSocket 1 True), (2, WebSocket 2 True)]"
    by (simp add: final_scores_def demo_defs)
  have us: "users final_scores = [(1, \<lparr>username = ''alice'', displayName = ''Alice''\<rparr>),
               (2, \<lparr>username = ''bob'', displayName = ''Bob''\<rparr>)]"
    by (simp add: final_scores_def demo_defs)
  note T = endGame_eliminates_minimum_and_ranks [OF wf g]
  from T have elim: "map (\<lambda>p. (userId p, isEliminated p))
                 (getParticipantsByGame (fst (endGame final_scores 1)) 1)
       = [(1, False), (2, True), (3, True)]"
    by (simp add: ps) (simp add: demo_defs)
  from T obtain rankings where
    sent: "snd (endGame final_scores 1)
           = [Send (WebSocket 1 True) (GAME_END 1 rankings),
              Send (WebSocket 2 True) (GAME_END 1 rankings)]"
    and ms: "mset rankings
       = mset (map (\<lambda>p. \<lparr>r_userId = userId p,
                  r_username = (case map_of (users final_scores) (userId p) of
                                  None \<Rightarrow> '''' | Some usr \<Rightarrow> username usr),
                  r_displayName = (case map_of (users final_scores) (userId p) of
                                  None \<Rightarrow> '''' | Some usr \<Rightarrow> displayName usr),
                  tokens = tokensWon p,
                  timeRemaining = (case timeBank p of None \<Rightarrow> 0 | Some t \<Rightarrow> t)\<rparr>)
                (getParticipantsByGame final_scores 1))"
    and so: "sorted_wrt (\<lambda>a b. tokens a > tokens b
               \<or> (tokens a = tokens b \<and> timeRemaining a \<ge> timeRemaining b)) rankings"
    by (auto simp: room)
  have "mset (map (\<lambda>r. (r_userId r, r_username r, tokens r, timeRemaining r)) rankings)
          = image_mset (\<lambda>r. (r_userId r, r_username r, tokens r, timeRemaining r)) (mset rankings)"
    by simp
  also have "\<dots> = {#(1, ''alice'', 2, 3), (2, ''bob'', 1, 5), (3, '''', 1, 8)#}"
    unfolding ms by (simp add: ps us) (simp add: demo_defs)
  finally have ms': "mset (map (\<lambda>r. (r_userId r, r_username r, tokens r, timeRemaining r)) rankings)
          = {#(1, ''alice'', 2, 3), (2, ''bob'', 1, 5), (3, '''', 1, 8)#}" .
  have ev: "snd (endGame final_scores 1)
       = [Send (WebSocket 1 True) (GAME_END 1
            [\<lparr>r_userId = 1, r_username = ''alice'', r_displayName = ''Alice'',
               tokens = 2, timeRemaining = 3\<rparr>,
             \<lparr>r_userId = 3, r_username = '''', r_displayName = '''',
               tokens = 1, timeRemaining = 8\<rparr>,
             \<lparr>r_userId = 2, r_username = ''bob'', r_displayName = ''Bob'',
               tokens = 1, timeRemaining = 5\<rparr>]),
          Send (WebSocket 2 True) (GAME_END 1
            [\<lparr>r_userId = 1, r_username = ''alice'', r_displayName = ''Alice'',
               tokens = 2, timeRemaining = 3\<rparr>,
             \<lparr>r_userId = 3, r_username = '''', r_displayName = '''',
               tokens = 1, timeRemaining = 8\<rparr>,
             \<lparr>r_userId = 2, r_username = ''bob'', r_displayName = ''Bob'',
               tokens = 1, timeRemaining = 5\<rparr>])]"
    by (simp add: final_scores_def demo_defs storage_defs route_defs Let_def)
  from wf elim sent ms' so ev show ?thesis by blast
qed

section \<open>One row per game and user\<close>

lemma set_update_cases:
  "kv \<in> set (AList.update k v xs) \<Longrightarrow> kv = (k, v) \<or> kv \<in> set xs"
  by (induction xs) (auto split: if_splits)

lemma participants_wf_addParticipant:
  assumes "participants_wf s"
  shows "participants_wf (fst (addParticipant s ins))"
proof -
  let ?p = "snd (addParticipant s ins)"
  have k: "(gameId ?p, userId ?p) = (gameId ins, userId ins)"
    by (simp add: addParticipant_def Let_def)
  have rows: "gameParticipants (fst (addParticipant s ins))
                = AList.update (gameId ins, userId ins) ?p (gameParticipants s)"
    by (simp add: addParticipant_def Let_def)
  have "distinct (map fst (AList.update (gameId ins, userId ins) ?p (gameParticipants s)))"
    using assms by (simp add: participants_wf_def distinct_update)
  moreover have "list_all (\<lambda>kp. fst kp = (gameId (snd kp), userId (snd kp)))
                   (AList.update (gameId ins, userId ins) ?p (gameParticipants s))"
    unfolding list_all_iff
  proof
    fix kv assume "kv \<in> set (AList.update (gameId ins, userId ins) ?p (gameParticipants s))"
    then have "kv = ((gameId ins, userId ins), ?p) \<or> kv \<in> set (gameParticipants s)"
      by (rule set_update_cases)
    then show "fst kv = (gameId (snd kv), userId (snd kv))"
      using assms k by (auto simp: participants_wf_def list_all_iff)
  qed
  ultimately show ?thesis by (simp add: participants_wf_def rows)
qed

lemma participants_wf_same_rows:
  "gameParticipants s2 = gameParticipants s1 \<Longrightarrow> participants_wf s1 \<Longrightarrow> participants_wf s2"
  by (simp add: participants_wf_def)

lemma participants_wf_fold:
  assumes "\<And>x st. participants_wf st \<Longrightarrow> participants_wf (f x st)" "participants_wf s"
  shows "participants_wf (fold f xs s)"
  using assms(2) by (induction xs arbitrary: s) (auto intro: assms(1))

lemma participants_wf_endGame:
  assumes "participants_wf s"
  shows "participants_wf (fst (endGame s g))"
proof (cases "getGame s g")
  case None
  then show ?thesis using assms by (simp add: endGame_def)
next
  case (Some gm)
  have "participants_wf (fold (\<lambda>participant st.
            if c participant then eliminateParticipant st g (userId participant) else st) ps s2)"
    if "participants_wf s2" for c and ps :: "gameParticipant list" and s2
    using that
    by (rule participants_wf_fold [rotated])
       (auto simp: eliminateParticipant_modify intro!: participants_wf_modifyParticipant)
  then show ?thesis using Some assms
    by (simp add: endGame_def Let_def updateGameStatus_modify setGameEndTime_modify)
qed

lemma participants_wf_endCurrentRound:
  assumes "participants_wf s"
  shows "participants_wf (fst (endCurrentRound s g))"
proof (cases "getGame s g")
  case None
  then show ?thesis using assms by (simp add: endCurrentRound_def)
next
  case (Some gm)
  show ?thesis
  proof (cases "status gm = in_progress")
    case False
    with Some show ?thesis using assms by (simp add: endCurrentRound_def)
  next
    case True
    have f: "participants_wf (fold (\<lambda>p st. updateParticipantBidDetails st g (id_p p) False 0) ps s2)"
      if "participants_wf s2" for ps :: "gameParticipant list" and s2
      using that
      by (rule participants_wf_fold [rotated])
         (auto simp: updateParticipantBidDetails_modify intro!: participants_wf_modifyParticipant)
    have s1': "participants_wf (case roundWinnerOf (getParticipantsByGame s g) of None \<Rightarrow> s
                | Some w \<Rightarrow> updateParticipantTokens s g (id_p w) (tokensWon w + 1))"
      using assms
      by (auto simp: updateParticipantTokens_modify split: option.splits
          intro!: participants_wf_modifyParticipant)
    have s2': "participants_wf (updateGameRoundResults
                 (case roundWinnerOf (getParticipantsByGame s g) of None \<Rightarrow> s
                  | Some w \<Rightarrow> updateParticipantTokens s g (id_p w) (tokensWon w + 1)) g w' m r)"
      for w' m r
      using s1' by (simp add: updateGameRoundResults_modify)
    show ?thesis
      by (simp add: endCurrentRound_unfold [OF Some True] Let_def)
         (intro conjI impI participants_wf_endGame f s2')
  qed
qed

lemma participants_wf_recordBid:
  "participants_wf s \<Longrightarrow> participants_wf (recordBid s g u h)"
  unfolding recordBid_def
  by (rule participants_wf_modifyParticipant) (simp_all add: keeps_key_def)

lemma participants_wf_handleBuzzerRelease:
  assumes "participants_wf s"
  shows "participants_wf (fst (handleBuzzerRelease s g u h))"
proof (cases "\<exists>gm p. getGame s g = Some gm \<and> status gm = in_progress
                \<and> getParticipant s g u = Some p \<and> \<not> isEliminated p \<and> \<not> hasBidThisRound p")
  case False
  then have "handleBuzzerRelease s g u h = (s, [])"
    by (auto simp: handleBuzzerRelease_def split: option.splits)
  then show ?thesis using assms by simp
next
  case True
  then obtain gm p where acc: "getGame s g = Some gm" "status gm = in_progress"
      "getParticipant s g u = Some p" "\<not> isEliminated p" "\<not> hasBidThisRound p"
    by blast
  show ?thesis
    by (simp add: handleBuzzerRelease_accepted [OF acc] Let_def participants_wf_recordBid assms
        participants_wf_endCurrentRound)
qed

lemma participants_wf_handlePlayerReady:
  assumes "participants_wf s"
  shows "participants_wf (fst (handlePlayerReady s g u b))"
proof -
  have "fst (handlePlayerReady s g u b) = updateParticipantReadyStatus s g u b"
    by (simp add: handlePlayerReady_def Let_def split: option.splits)
  then show ?thesis
    by (simp add: updateParticipantReadyStatus_modify participants_wf_modifyParticipant assms)
qed

lemma participants_wf_addToGameRoom:
  "participants_wf s \<Longrightarrow> participants_wf (fst (addToGameRoom s g u ws))"
  by (erule participants_wf_same_rows [rotated]) simp

lemma participants_wf_handleJoinGame:
  assumes "participants_wf s"
  shows "participants_wf (fst (handleJoinGame s g u ws))"
proof (cases "getGame s g")
  case None
  then show ?thesis using assms by (simp add: handleJoinGame_def)
next
  case (Some gm)
  note G = this
  show ?thesis
  proof (cases "getParticipant s g u")
    case None
    have a: "participants_wf (updateGameHost (fst (addParticipant s ins)) g u)" for ins
      by (simp add: updateGameHost_modify participants_wf_addParticipant assms)
    show ?thesis
    proof (cases "getUser s u")
      case None
      with G \<open>getParticipant s g u = None\<close> show ?thesis using assms
        by (simp add: handleJoinGame_def)
    next
      case (Some usr)
      with G \<open>getParticipant s g u = None\<close> show ?thesis
        by (simp add: handleJoinGame_def Let_def split_beta assms
            participants_wf_addToGameRoom participants_wf_addParticipant a)
    qed
  next
    case (Some p)
    have b: "participants_wf (updateGameHost (updateParticipantHostStatus s g u True) g u)"
      by (simp add: to_modify participants_wf_modifyParticipant assms)
    have c: "participants_wf
               (updateParticipantReadyStatus
                  (updateGameHost (updateParticipantHostStatus s g u True) g u) g u True)"
      by (simp add: to_modify participants_wf_modifyParticipant assms)
    have "participants_wf
            (if createdById gm = u \<and> \<not> isHost p
             then (case find isHost (getParticipantsByGame s g) of
                     Some currentHost \<Rightarrow> s
                   | None \<Rightarrow>
                       (let sa = updateGameHost (updateParticipantHostStatus s g u True) g u
                        in case getParticipant sa g u of
                             None \<Rightarrow> sa
                           | Some p' \<Rightarrow>
                               if \<not> isReady p' then updateParticipantReadyStatus sa g u True
                               else sa))
             else s)"
      using assms b c by (simp add: Let_def split: option.splits)
    with G Some show ?thesis
      by (simp add: handleJoinGame_def Let_def participants_wf_addToGameRoom)
  qed
qed

lemma participants_wf_step:
  assumes "participants_wf s"
  shows "participants_wf (fst (step s a))"
proof (cases a)
  case (Msg_JOIN_GAME g u ws)
  then show ?thesis using assms by (simp add: participants_wf_handleJoinGame)
next
  case (Msg_PLAYER_READY g u b)
  then show ?thesis using assms by (simp add: participants_wf_handlePlayerReady)
next
  case (Msg_BUZZER_HOLD g u)
  then show ?thesis using assms by (simp add: handleBuzzerHold_def)
next
  case (Msg_BUZZER_RELEASE g u h)
  then show ?thesis using assms by (simp add: participants_wf_handleBuzzerRelease)
next
  case (Conn_close g u ws)
  then show ?thesis using assms by (auto intro: participants_wf_same_rows [rotated])
next
  case (Timer_startGame g)
  then show ?thesis using assms by (auto intro: participants_wf_same_rows [rotated])
next
  case Timer_cleanupGames
  then show ?thesis using assms by (auto intro: participants_wf_same_rows [rotated])
next
  case (Run_handleEmptyGame g)
  then show ?thesis using assms by (auto intro: participants_wf_same_rows [rotated])
qed

lemma participants_wf_run:
  "participants_wf s \<Longrightarrow> participants_wf (fst (run s as))"
proof (induction as arbitrary: s)
  case Nil
  then show ?case by simp
next
  case (Cons a as)
  from Cons.IH [OF participants_wf_step [OF Cons.prems, of a]]
  show ?case by (simp add: split_beta)
qed

lemma distinct_filter_eq_le_1: "distinct xs \<Longrightarrow> length (filter (\<lambda>k. k = a) xs) \<le> 1"
  by (induction xs) (auto simp: filter_empty_conv)

lemma wf_at_most_one_row:
  assumes "participants_wf s"
  shows "length (filter (\<lambda>p. gameId p = g \<and> userId p = u) (map snd (gameParticipants s))) \<le> 1"
proof -
  have "filter (\<lambda>p. gameId p = g \<and> userId p = u) (map snd (gameParticipants s))
          = map snd (filter (\<lambda>kp. fst kp = (g, u)) (gameParticipants s))"
    using assms unfolding participants_wf_def list_all_iff filter_map comp_def
    by (intro arg_cong [where f = "map snd"] filter_cong) auto
  moreover have "length (filter (\<lambda>kp. fst kp = (g, u)) (gameParticipants s)) \<le> 1"
  proof -
    have "distinct (map fst (gameParticipants s))"
      using assms by (simp add: participants_wf_def)
    from distinct_filter_eq_le_1 [OF this, of "(g, u)"] show ?thesis
      by (simp add: filter_map comp_def)
  qed
  ultimately show ?thesis by simp
qed

lemma keys_modifyParticipant [simp]:
  "map fst (gameParticipants (modifyParticipant s k f)) = map fst (gameParticipants s)"
  by (simp add: modifyParticipant_def keys_map_entry)

lemma map_entry_ident: "AList.map_entry k (\<lambda>q. q) xs = xs"
  by (induction xs) auto

lemma modifyParticipant_ident [simp]: "modifyParticipant s k (\<lambda>q. q) = s"
  by (simp add: modifyParticipant_def map_entry_ident)

lemma handleJoinGame_rejoin_rows:
  assumes "getGame s g = Some gm" "getParticipant s g u = Some p"
  shows "gameParticipants (fst (handleJoinGame s g u ws))
     = gameParticipants
         (if createdById gm = u \<and> \<not> isHost p \<and> find isHost (getParticipantsByGame s g) = None
          then modifyParticipant s (g, u) (\<lambda>q. q\<lparr>isHost := True, isReady := True\<rparr>)
          else s)"
proof (cases "createdById gm = u \<and> \<not> isHost p \<and> find isHost (getParticipantsByGame s g) = None")
  case False
  with assms show ?thesis
    by (auto simp: handleJoinGame_def Let_def split: option.splits)
next
  case True
  let ?sa = "updateGameHost (updateParticipantHostStatus s g u True) g u"
  have pa: "getParticipant ?sa g u = Some (p\<lparr>isHost := True\<rparr>)"
    using assms(2) by (simp add: to_modify)
  have "gameParticipants (if \<not> isReady (p\<lparr>isHost := True\<rparr>)
                          then updateParticipantReadyStatus ?sa g u True else ?sa)
          = gameParticipants (modifyParticipant s (g, u) (\<lambda>q. q\<lparr>isHost := True, isReady := True\<rparr>))"
  proof (cases "isReady p")
    case True
    have "modifyParticipant s (g, u) (\<lambda>q. q\<lparr>isHost := True\<rparr>)
            = modifyParticipant s (g, u) (\<lambda>q. q\<lparr>isHost := True, isReady := True\<rparr>)"
      by (rule modifyParticipant_cong_at) (use assms(2) True in auto)
    with True show ?thesis by (simp add: to_modify)
  next
    case False
    then show ?thesis
      by (simp add: to_modify modifyParticipant_def modifyGame_def map_entry_comp comp_def)
  qed
  with True assms pa show ?thesis
    by (simp add: handleJoinGame_def Let_def)
qed

text \<open>
  Claim C6. Starting from a store that has at most one participant row per key (as the
  empty store has), \<open>addParticipant\<close> and every run of the server keep at most one row per
  (game, user) pair. A \<open>JOIN_GAME\<close> from a user who already has a row in the game adds no
  row and changes no other row; the user's own row keeps its \<open>tokensWon\<close>, \<open>isEliminated\<close>
  and \<open>timeBank\<close>, and is either unchanged altogether or, when the user is the game's
  creator, has \<open>isHost\<close> and \<open>isReady\<close> set.
\<close>

theorem one_row_per_pair_and_rejoin_keeps_row:
  assumes "participants_wf s"
  shows "participants_wf (fst (addParticipant s ins))
     \<and> (\<forall>as g' u'. length (filter (\<lambda>p. gameId p = g' \<and> userId p = u')
                          (map snd (gameParticipants (fst (run s as))))) \<le> 1)
     \<and> (\<forall>p. getParticipant s g u = Some p \<longrightarrow>
           map fst (gameParticipants (fst (handleJoinGame s g u ws)))
             = map fst (gameParticipants s)
           \<and> (\<exists>p'. getParticipant (fst (handleJoinGame s g u ws)) g u = Some p'
                 \<and> tokensWon p' = tokensWon p \<and> isEliminated p' = isEliminated p
                 \<and> timeBank p' = timeBank p
                 \<and> (p' = p \<or> (\<exists>gm. getGame s g = Some gm \<and> createdById gm = u
                                  \<and> p' = p\<lparr>isHost := True, isReady := True\<rparr>)))
           \<and> (\<forall>g' u'. (g', u') \<noteq> (g, u) \<longrightarrow>
                  getParticipant (fst (handleJoinGame s g u ws)) g' u' = getParticipant s g' u'))"
proof (intro conjI allI impI)
  show "participants_wf (fst (addParticipant s ins))"
    by (rule participants_wf_addParticipant [OF assms])
next
  fix as g' u'
  show "length (filter (\<lambda>p. gameId p = g' \<and> userId p = u')
          (map snd (gameParticipants (fst (run s as))))) \<le> 1"
    by (rule wf_at_most_one_row [OF participants_wf_run [OF assms]])
next
  fix p assume p: "getParticipant s g u = Some p"
  have rows: "\<exists>f. (f = (\<lambda>q. q) \<or> (\<exists>gm. getGame s g = Some gm \<and> createdById gm = u
                      \<and> f = (\<lambda>q. q\<lparr>isHost := True, isReady := True\<rparr>)))
     \<and> gameParticipants (fst (handleJoinGame s g u ws))
           = gameParticipants (modifyParticipant s (g, u) f)"
  proof (cases "getGame s g")
    case None
    then show ?thesis by (auto simp: handleJoinGame_def)
  next
    case (Some gm)
    show ?thesis
    proof (cases "createdById gm = u \<and> \<not> isHost p
                    \<and> find isHost (getParticipantsByGame s g) = None")
      case True
      with handleJoinGame_rejoin_rows [OF Some p, of ws] Some show ?thesis by auto
    next
      case False
      with handleJoinGame_rejoin_rows [OF Some p, of ws] show ?thesis by auto
    qed
  qed
  then obtain f where f: "f = (\<lambda>q. q) \<or> (\<exists>gm. getGame s g = Some gm \<and> createdById gm = u
                      \<and> f = (\<lambda>q. q\<lparr>isHost := True, isReady := True\<rparr>))"
    and eq: "gameParticipants (fst (handleJoinGame s g u ws))
           = gameParticipants (modifyParticipant s (g, u) f)"
    by blast
  have look: "getParticipant (fst (handleJoinGame s g u ws)) g' u'
                = getParticipant (modifyParticipant s (g, u) f) g' u'" for g' u'
    by (simp add: getParticipant_def eq)
  show "map fst (gameParticipants (fst (handleJoinGame s g u ws))) = map fst (gameParticipants s)"
    by (simp add: eq)
  show "\<exists>p'. getParticipant (fst (handleJoinGame s g u ws)) g u = Some p'
          \<and> tokensWon p' = tokensWon p \<and> isEliminated p' = isEliminated p
          \<and> timeBank p' = timeBank p
          \<and> (p' = p \<or> (\<exists>gm. getGame s g = Some gm \<and> createdById gm = u
                           \<and> p' = p\<lparr>isHost := True, isReady := True\<rparr>))"
    using f p by (auto simp: look)
  fix g' u' assume "(g', u') \<noteq> (g, u)"
  then show "getParticipant (fst (handleJoinGame s g u ws)) g' u' = getParticipant s g' u'"
    by (auto simp: look)
qed

theorem one_row_per_pair_and_rejoin_keeps_row_witness:
  "participants_wf lobby_rejoin
   \<and> length (filter (\<lambda>p. gameId p = 1 \<and> userId p = 2)
        (map snd (gameParticipants (fst (run lobby_rejoin
           [Msg_JOIN_GAME 1 2 (WebSocket 7 True), Msg_JOIN_GAME 1 2 (WebSocket 8 True)]))))) \<le> 1
   \<and> map fst (gameParticipants (fst (handleJoinGame lobby_rejoin 1 2 (WebSocket 7 True))))
       = map fst (gameParticipants lobby_rejoin)
   \<and> (\<exists>p'. getParticipant (fst (handleJoinGame lobby_rejoin 1 2 (WebSocket 7 True))) 1 2 = Some p'
         \<and> tokensWon p' = 1 \<and> isEliminated p' = False \<and> timeBank p' = Some 10)"
proof -
  have wf: "participants_wf lobby_rejoin"
    by (simp add: lobby_rejoin_def demo_defs participants_wf_def)
  have p: "getParticipant lobby_rejoin 1 2
     = Some ((demo_participant 1 2 False False 0)\<lparr>isHost := False, isReady := False, tokensWon := 1\<rparr>)"
    by (simp add: lobby_rejoin_def demo_defs getParticipant_def)
  note T = one_row_per_pair_and_rejoin_keeps_row [OF wf, of _ 1 2 "WebSocket 7 True"]
  note T2 = T [THEN conjunct2, THEN conjunct1, rule_format]
  note T3 = T [THEN conjunct2, THEN conjunct2, rule_format, OF p]
  from T3 have "\<exists>p'. getParticipant (fst (handleJoinGame lobby_rejoin 1 2 (WebSocket 7 True))) 1 2
                   = Some p'
         \<and> tokensWon p' = 1 \<and> isEliminated p' = False \<and> timeBank p' = Some 10"
    by (auto simp: demo_defs)
  with wf T2 T3 show ?thesis by blast
qed

section \<open>Round resolution: when it happens\<close>

lemma release_without_active_row_dropped:
  "getParticipant s g u = None \<or> (\<exists>p. getParticipant s g u = Some p \<and> isEliminated p)
   \<Longrightarrow> handleBuzzerRelease s g u h = (s, [])"
  by (auto simp: handleBuzzerRelease_def split: option.splits)

lemma allActivePlayersHaveBid_iff:
  assumes "\<And>p q. p \<in> set ps \<Longrightarrow> q \<in> set ps \<Longrightarrow> userId p = userId q \<Longrightarrow> p = q"
  shows "allActivePlayersHaveBid ps
     \<longleftrightarrow> (\<exists>p\<in>set ps. \<not> isEliminated p) \<and> (\<forall>p\<in>set ps. \<not> isEliminated p \<longrightarrow> hasBidThisRound p)"
proof -
  have "list_ex (\<lambda>b. userId b = userId p) (filter hasBidThisRound ps) \<longleftrightarrow> hasBidThisRound p"
    if "p \<in> set ps" for p
    using that assms by (auto simp: list_ex_iff)
  then show ?thesis
    by (auto simp: allActivePlayersHaveBid_def Let_def list_all_iff filter_empty_conv)
qed

lemma wf_row_in_game:
  assumes "participants_wf s" "getParticipant s g u = Some p"
  shows "p \<in> set (getParticipantsByGame s g) \<and> userId p = u \<and> gameId p = g"
proof -
  from assms(2) have m: "((g, u), p) \<in> set (gameParticipants s)"
    by (simp add: getParticipant_def map_of_SomeD)
  with assms(1) have "(g, u) = (gameId p, userId p)"
    unfolding participants_wf_def list_all_iff by force
  with m show ?thesis by (force simp: getParticipantsByGame_def)
qed

lemma wf_in_game_lookup:
  assumes "participants_wf s" "p \<in> set (getParticipantsByGame s g)"
  shows "getParticipant s g (userId p) = Some p"
proof -
  from assms(2) obtain k where k: "(k, p) \<in> set (gameParticipants s)" "gameId p = g"
    by (auto simp: getParticipantsByGame_def)
  with assms(1) have "k = (g, userId p)"
    unfolding participants_wf_def list_all_iff by force
  with k assms(1) show ?thesis
    by (simp add: getParticipant_def participants_wf_def)
qed

lemma recordBid_rows:
  assumes "participants_wf s"
  shows "getParticipantsByGame (recordBid s g u h) g
     = map (\<lambda>q. if userId q = u
                 then q\<lparr>timeBank := map_option (\<lambda>tb. max 0 (tb - h / 1000)) (timeBank q),
                        hasBidThisRound := True, lastHoldTime := h\<rparr>
                 else q)
         (getParticipantsByGame s g)"
  unfolding recordBid_def
  by (subst getParticipantsByGame_modifyParticipant)
     (auto simp: keeps_key_def assms gameId_getParticipantsByGame intro!: map_cong)

lemma getGame_recordBid [simp]: "getGame (recordBid s g u h) g' = getGame s g'"
  by (simp add: recordBid_def)

lemma release_resolves_iff:
  assumes "participants_wf s" "getGame s g = Some gm" "status gm = in_progress"
    and "getParticipant s g u = Some p" "\<not> isEliminated p" "\<not> hasBidThisRound p"
  shows "allActivePlayersHaveBid (getParticipantsByGame (recordBid s g u h) g)
     \<longleftrightarrow> (\<forall>q\<in>set (getParticipantsByGame s g).
            \<not> isEliminated q \<and> userId q \<noteq> u \<longrightarrow> hasBidThisRound q)"
proof -
  let ?s2 = "recordBid s g u h"
  have wf2: "participants_wf ?s2" by (rule participants_wf_recordBid [OF assms(1)])
  have uniq: "\<And>a b. a \<in> set (getParticipantsByGame ?s2 g) \<Longrightarrow> b \<in> set (getParticipantsByGame ?s2 g)
                \<Longrightarrow> userId a = userId b \<Longrightarrow> a = b"
    by (rule wf_same_user_same_row [OF wf2])
  from wf_row_in_game [OF assms(1,4)]
  have pin: "p \<in> set (getParticipantsByGame s g)" "userId p = u" by auto
  have iff: "allActivePlayersHaveBid (getParticipantsByGame ?s2 g)
     \<longleftrightarrow> (\<exists>a\<in>set (getParticipantsByGame ?s2 g). \<not> isEliminated a)
         \<and> (\<forall>a\<in>set (getParticipantsByGame ?s2 g). \<not> isEliminated a \<longrightarrow> hasBidThisRound a)"
    by (rule allActivePlayersHaveBid_iff) (rule uniq)
  let ?F = "\<lambda>q. q\<lparr>timeBank := map_option (\<lambda>tb. max 0 (tb - h / 1000)) (timeBank q),
                     hasBidThisRound := True, lastHoldTime := h\<rparr>"
  have "?F p \<in> set (getParticipantsByGame ?s2 g)"
    unfolding recordBid_rows [OF assms(1)] using pin by (auto intro!: image_eqI [of _ _ p])
  moreover have "\<not> isEliminated (?F p)" using assms(5) by simp
  ultimately have ex: "\<exists>a\<in>set (getParticipantsByGame ?s2 g). \<not> isEliminated a"
    by blast
  have "(\<forall>a\<in>set (getParticipantsByGame ?s2 g). \<not> isEliminated a \<longrightarrow> hasBidThisRound a)
     \<longleftrightarrow> (\<forall>q\<in>set (getParticipantsByGame s g).
            \<not> isEliminated q \<and> userId q \<noteq> u \<longrightarrow> hasBidThisRound q)"
    by (auto simp: recordBid_rows [OF assms(1)])
  with iff ex show ?thesis by simp
qed

lemma no_log_resolvedRounds:
  "(\<And>l. ConsoleLog l \<notin> set es) \<Longrightarrow> resolvedRounds g es = []"
proof (induction g es rule: resolvedRounds.induct)
  case (1 g)
  then show ?case by simp
next
  case (2 g g' r w h es)
  from this(3) [of "RoundWinner g' r w h"] show ?case by simp
next
  case (3 g g' r es)
  from this(3) [of "NoActiveBidders g' r"] show ?case by simp
qed auto

lemma resolvedRounds_append:
  "resolvedRounds g (es @ fs) = resolvedRounds g es @ resolvedRounds g fs"
  by (induction g es rule: resolvedRounds.induct) auto

lemma resolvedRounds_broadcastToGame [simp]: "resolvedRounds g (broadcastToGame s g' m) = []"
  by (rule no_log_resolvedRounds) simp

lemma sendGameState_no_log [simp]: "ConsoleLog l \<notin> set (sendGameState s g u ws)"
  by (simp add: sendGameState_def split: option.splits)

lemma resolvedRounds_endGame [simp]: "resolvedRounds g (snd (endGame s g')) = []"
  by (rule no_log_resolvedRounds) (simp add: endGame_def Let_def split: option.splits)

lemma resolvedRounds_endCurrentRound:
  assumes "getGame s g' = Some gm" "status gm = in_progress"
  shows "resolvedRounds g (snd (endCurrentRound s g'))
           = (if g' = g then [currentRound gm] else [])"
  by (simp add: endCurrentRound_unfold [OF assms] Let_def resolvedRounds_append
      split: option.splits)

lemma getGame_endGame_currentRound:
  "map_option currentRound (getGame (fst (endGame s g')) g) = map_option currentRound (getGame s g)"
  by (simp add: getGame_endGame option.map_comp comp_def)

lemma getGame_endCurrentRound_other:
  assumes "g \<noteq> g'"
  shows "getGame (fst (endCurrentRound s g')) g = getGame s g"
proof (cases "\<exists>gm. getGame s g' = Some gm \<and> status gm = in_progress")
  case False
  then show ?thesis by (auto simp: endCurrentRound_def split: option.splits)
next
  case True
  then obtain gm where gm: "getGame s g' = Some gm" "status gm = in_progress" by blast
  have g3: "getGame (fold (\<lambda>p st. updateParticipantBidDetails st g' (id_p p) False 0) ps s0) g
        = getGame s0 g" for ps :: "gameParticipant list" and s0
    by (rule fold_keeps [where h = "\<lambda>st. getGame st g"]) simp
  show ?thesis using assms
    by (simp add: endCurrentRound_unfold [OF gm] Let_def getGame_endGame g3
        updateGameRoundResults_modify split: option.splits)
qed

lemma sameRounds_refl [simp]: "sameRounds s s"
  by (simp add: sameRounds_def)

lemma sameRounds_same_games:
  "games s2 = games s1 \<Longrightarrow> sameRounds s s1 \<Longrightarrow> sameRounds s s2"
  by (simp add: sameRounds_def getGame_def)

lemma sameRounds_modifyGame:
  "(\<And>gm. currentRound (f gm) = currentRound gm) \<Longrightarrow> sameRounds s s1
   \<Longrightarrow> sameRounds s (modifyGame s1 g f)"
  by (auto simp: sameRounds_def option.map_comp comp_def)

lemma sameRounds_modifyParticipant:
  "sameRounds s s1 \<Longrightarrow> sameRounds s (modifyParticipant s1 k f)"
  by (erule sameRounds_same_games [rotated]) simp

lemma sameRounds_fold:
  assumes "\<And>x st. sameRounds s st \<Longrightarrow> sameRounds s (f x st)" "sameRounds s s1"
  shows "sameRounds s (fold f xs s1)"
  using assms(2) by (induction xs arbitrary: s1) (auto intro: assms(1))

lemma games_addToGameRoom [simp]: "games (fst (addToGameRoom s g u ws)) = games s"
  by (simp add: addToGameRoom_def Let_def)

lemma games_addParticipant [simp]: "games (fst (addParticipant s ins)) = games s"
  by (simp add: addParticipant_def Let_def)

lemma sameRounds_handleJoinGame: "sameRounds s (fst (handleJoinGame s g u ws))"
proof -
  have a: "sameRounds s (updateGameHost (fst (addParticipant s ins)) g u)" for ins
    unfolding updateGameHost_modify
    by (rule sameRounds_modifyGame, simp, rule sameRounds_same_games [of _ s]) simp_all
  have a': "sameRounds s (fst (addParticipant s ins))" for ins
    by (rule sameRounds_same_games [of _ s]) simp_all
  have b: "sameRounds s (updateGameHost (updateParticipantHostStatus s g u True) g u)"
    unfolding to_modify
    by (intro sameRounds_modifyGame sameRounds_modifyParticipant) simp_all
  have c: "sameRounds s
             (updateParticipantReadyStatus
                (updateGameHost (updateParticipantHostStatus s g u True) g u) g u True)"
    unfolding to_modify
    by (intro sameRounds_modifyGame sameRounds_modifyParticipant) simp_all
  have room: "sameRounds s s1 \<Longrightarrow> sameRounds s (fst (addToGameRoom s1 g u ws))" for s1
    by (erule sameRounds_same_games [rotated]) simp
  show ?thesis
  proof (cases "getGame s g")
    case None
    then show ?thesis by (simp add: handleJoinGame_def)
  next
    case (Some gm)
    note G = this
    show ?thesis
    proof (cases "getParticipant s g u")
      case None
      show ?thesis
      proof (cases "getUser s u")
        case None
        with G \<open>getParticipant s g u = None\<close> show ?thesis by (simp add: handleJoinGame_def)
      next
        case (Some usr)
        with G \<open>getParticipant s g u = None\<close> show ?thesis
          by (simp add: handleJoinGame_def Let_def split_beta room a a')
      qed
    next
      case (Some p)
      have "sameRounds s
            (if createdById gm = u \<and> \<not> isHost p
             then (case find isHost (getParticipantsByGame s g) of
                     Some currentHost \<Rightarrow> s
                   | None \<Rightarrow>
                       (let sa = updateGameHost (updateParticipantHostStatus s g u True) g u
                        in case getParticipant sa g u of
                             None \<Rightarrow> sa
                           | Some p' \<Rightarrow>
                               if \<not> isReady p' then updateParticipantReadyStatus sa g u True
                               else sa))
             else s)"
        using b c by (simp add: Let_def split: option.splits)
      with G Some show ?thesis
        by (simp add: handleJoinGame_def Let_def room)
    qed
  qed
qed

lemma no_log_handleJoinGame: "ConsoleLog l \<notin> set (snd (handleJoinGame s g u ws))"
proof -
  have "ConsoleLog l \<notin> set (snd (addToGameRoom s1 g u ws))" for s1
    by (simp add: addToGameRoom_def Let_def)
  then show ?thesis
    by (simp add: handleJoinGame_def Let_def split_beta split: option.splits)
qed

lemma games_handlePlayerReady [simp]: "games (fst (handlePlayerReady s g u b)) = games s"
  by (simp add: handlePlayerReady_def Let_def updateParticipantReadyStatus_modify
      split: option.splits)

lemma no_log_handlePlayerReady: "ConsoleLog l \<notin> set (snd (handlePlayerReady s g u b))"
  by (simp add: handlePlayerReady_def Let_def split: option.splits)

lemma sameRounds_startGame: "sameRounds s (fst (startGame s g))"
proof -
  have "sameRounds s ((modifyGame (modifyGame s g f1) g f2)\<lparr>roundIdCounter := n, gameRounds := rs\<rparr>)"
    if "\<And>gm. currentRound (f1 gm) = currentRound gm" "\<And>gm. currentRound (f2 gm) = currentRound gm"
    for f1 f2 n rs
    by (rule sameRounds_same_games [of _ "modifyGame (modifyGame s g f1) g f2"])
       (simp_all add: sameRounds_modifyGame that)
  then show ?thesis
    by (simp add: startGame_def Let_def createRound_def to_modify split: option.splits)
qed

lemma no_log_startGame: "ConsoleLog l \<notin> set (snd (startGame s g))"
  by (simp add: startGame_def Let_def split: option.splits)

lemma sameRounds_completed:
  "sameRounds s s1 \<Longrightarrow>
   sameRounds s ((setGameEndTime (updateGameStatus s1 g completed) g)\<lparr>gameClients := c\<rparr>)"
  by (rule sameRounds_same_games
        [of _ "setGameEndTime (updateGameStatus s1 g completed) g"])
     (simp_all add: to_modify sameRounds_modifyGame)

lemma sameRounds_handleEmptyGame: "sameRounds s (handleEmptyGame s g)"
  by (simp add: handleEmptyGame_def Let_def sameRounds_completed split: option.splits)

lemma sameRounds_cleanupGames: "sameRounds s (cleanupGames s)"
  unfolding cleanupGames_def Let_def
  by (rule sameRounds_fold) (auto intro: sameRounds_completed)

lemma games_onClose [simp]: "games (fst (onClose s g u ws)) = games s"
  by (simp add: onClose_def Let_def split: option.splits)

lemma no_log_onClose: "ConsoleLog l \<notin> set (snd (onClose s g u ws))"
  by (simp add: onClose_def Let_def split: option.splits)

lemma release_resolution:
  "(resolvedRounds g (snd (handleBuzzerRelease s g' u h)) = []
      \<and> map_option currentRound (getGame (fst (handleBuzzerRelease s g' u h)) g)
          = map_option currentRound (getGame s g))
   \<or> (\<exists>r. resolvedRounds g (snd (handleBuzzerRelease s g' u h)) = [r]
        \<and> map_option currentRound (getGame s g) = Some r
        \<and> map_option currentRound (getGame (fst (handleBuzzerRelease s g' u h)) g) = Some (r + 1))"
proof (cases "\<exists>gm p. getGame s g' = Some gm \<and> status gm = in_progress
                \<and> getParticipant s g' u = Some p \<and> \<not> isEliminated p \<and> \<not> hasBidThisRound p")
  case False
  then have "handleBuzzerRelease s g' u h = (s, [])"
    by (auto simp: handleBuzzerRelease_def split: option.splits)
  then show ?thesis by simp
next
  case True
  then obtain gm p where acc: "getGame s g' = Some gm" "status gm = in_progress"
      "getParticipant s g' u = Some p" "\<not> isEliminated p" "\<not> hasBidThisRound p"
    by blast
  let ?s2 = "recordBid s g' u h"
  have g2: "getGame ?s2 g' = Some gm" using acc(1) by simp
  show ?thesis
  proof (cases "allActivePlayersHaveBid (getParticipantsByGame ?s2 g')")
    case False
    then show ?thesis
      by (simp add: handleBuzzerRelease_accepted [OF acc] Let_def)
  next
    case True
    have st: "fst (handleBuzzerRelease s g' u h) = fst (endCurrentRound ?s2 g')"
      using True by (simp add: handleBuzzerRelease_accepted [OF acc] Let_def)
    have rr: "resolvedRounds g (snd (handleBuzzerRelease s g' u h))
                = (if g' = g then [currentRound gm] else [])"
      using True
      by (simp add: handleBuzzerRelease_accepted [OF acc] Let_def resolvedRounds_append
          resolvedRounds_endCurrentRound [OF g2 acc(2)])
    show ?thesis
    proof (cases "g' = g")
      case False
      then have "getGame (fst (endCurrentRound ?s2 g')) g = getGame s g"
        by (simp add: getGame_endCurrentRound_other)
      with False show ?thesis unfolding st rr by simp
    next
      case same: True
      have "map_option currentRound (getGame (fst (endCurrentRound ?s2 g')) g')
              = Some (currentRound gm + 1)"
        by (simp add: getGame_endCurrentRound [OF g2 acc(2)])
      moreover have "map_option currentRound (getGame s g') = Some (currentRound gm)"
        using acc(1) by simp
      ultimately show ?thesis unfolding st rr using same by auto
    qed
  qed
qed

lemma step_resolution:
  "(resolvedRounds g (snd (step s a)) = []
      \<and> map_option currentRound (getGame (fst (step s a)) g)
          = map_option currentRound (getGame s g))
   \<or> (\<exists>r. resolvedRounds g (snd (step s a)) = [r]
        \<and> map_option currentRound (getGame s g) = Some r
        \<and> map_option currentRound (getGame (fst (step s a)) g) = Some (r + 1))"
proof (cases a)
  case (Msg_JOIN_GAME g' u ws)
  have "resolvedRounds g (snd (handleJoinGame s g' u ws)) = []"
    by (rule no_log_resolvedRounds) (rule no_log_handleJoinGame)
  with Msg_JOIN_GAME sameRounds_handleJoinGame [of s g' u ws] show ?thesis
    by (simp add: sameRounds_def)
next
  case (Msg_PLAYER_READY g' u b)
  have "resolvedRounds g (snd (handlePlayerReady s g' u b)) = []"
    by (rule no_log_resolvedRounds) (rule no_log_handlePlayerReady)
  with Msg_PLAYER_READY show ?thesis by (simp add: getGame_def)
next
  case (Msg_BUZZER_HOLD g' u)
  then show ?thesis by (simp add: handleBuzzerHold_def)
next
  case (Msg_BUZZER_RELEASE g' u h)
  with release_resolution [of g s g' u h] show ?thesis by simp
next
  case (Conn_close g' u ws)
  have "resolvedRounds g (snd (onClose s g' u ws)) = []"
    by (rule no_log_resolvedRounds) (rule no_log_onClose)
  with Conn_close show ?thesis by (simp add: getGame_def)
next
  case (Timer_startGame g')
  have "resolvedRounds g (snd (startGame s g')) = []"
    by (rule no_log_resolvedRounds) (rule no_log_startGame)
  with Timer_startGame sameRounds_startGame [of s g'] show ?thesis
    by (simp add: sameRounds_def)
next
  case Timer_cleanupGames
  with sameRounds_cleanupGames [of s] show ?thesis by (simp add: sameRounds_def)
next
  case (Run_handleEmptyGame g')
  with sameRounds_handleEmptyGame [of s g'] show ?thesis by (simp add: sameRounds_def)
qed

lemma run_resolution:
  "sorted_wrt (<) (resolvedRounds g (snd (run s as)))
   \<and> (\<forall>r\<in>set (resolvedRounds g (snd (run s as))).
         \<exists>c. map_option currentRound (getGame s g) = Some c \<and> c \<le> r)"
proof (induction as arbitrary: s)
  case Nil
  then show ?case by simp
next
  case (Cons a as)
  let ?s1 = "fst (step s a)"
  let ?rs = "resolvedRounds g (snd (run ?s1 as))"
  have run: "resolvedRounds g (snd (run s (a # as)))
               = resolvedRounds g (snd (step s a)) @ ?rs"
    by (simp add: split_beta resolvedRounds_append)
  from Cons.IH [of ?s1] have sorted: "sorted_wrt (<) ?rs"
    and lower: "\<forall>r\<in>set ?rs. \<exists>c. map_option currentRound (getGame ?s1 g) = Some c \<and> c \<le> r"
    by auto
  from step_resolution [of g s a] show ?case
  proof
    assume "resolvedRounds g (snd (step s a)) = []
      \<and> map_option currentRound (getGame ?s1 g) = map_option currentRound (getGame s g)"
    with sorted lower show ?thesis unfolding run by simp
  next
    assume "\<exists>r. resolvedRounds g (snd (step s a)) = [r]
        \<and> map_option currentRound (getGame s g) = Some r
        \<and> map_option currentRound (getGame ?s1 g) = Some (r + 1)"
    then obtain r where r: "resolvedRounds g (snd (step s a)) = [r]"
      "map_option currentRound (getGame s g) = Some r"
      "map_option currentRound (getGame ?s1 g) = Some (r + 1)" by blast
    from lower r(3) have "\<forall>x\<in>set ?rs. r + 1 \<le> x" by auto
    then have "\<forall>x\<in>set ?rs. r < x" by auto
    with sorted r(1,2) show ?thesis unfolding run by auto
  qed
qed

lemma endCurrentRound_no_bidders:
  assumes "getGame s g = Some gm" "status gm = in_progress"
    and "filter (\<lambda>p. \<not> isEliminated p \<and> hasBidThisRound p) (getParticipantsByGame s g) = []"
  shows "map_option roundWinnerId (getGame (fst (endCurrentRound s g)) g) = Some None"
    and "map_option currentRound (getGame (fst (endCurrentRound s g)) g)
           = Some (currentRound gm + 1)"
    and "rows_evolve same_tokens s (fst (endCurrentRound s g))"
proof -
  have rw: "roundWinnerOf (getParticipantsByGame s g) = None"
    using assms(3) by (simp add: roundWinnerOf_def)
  show "map_option roundWinnerId (getGame (fst (endCurrentRound s g)) g) = Some None"
    and "map_option currentRound (getGame (fst (endCurrentRound s g)) g)
           = Some (currentRound gm + 1)"
    by (simp_all add: getGame_endCurrentRound [OF assms(1,2)] rw)
  have pre: "preorder_rows same_tokens" by (simp add: preorder_rows_def same_tokens_def)
  have f: "rows_evolve same_tokens s
             (fold (\<lambda>p st. updateParticipantBidDetails st g (id_p p) False 0) ps s2)"
    if "rows_evolve same_tokens s s2" for ps :: "gameParticipant list" and s2
    using that
    by (rule rows_evolve_fold [rotated])
       (auto simp: updateParticipantBidDetails_modify same_tokens_def
         intro!: rows_evolve_modifyParticipant pre)
  have s2: "rows_evolve same_tokens s (updateGameRoundResults s g w m r)" for w m r
    by (simp add: updateGameRoundResults_modify rows_evolve_modifyGame rows_evolve_refl pre)
  show "rows_evolve same_tokens s (fst (endCurrentRound s g))"
    by (simp add: endCurrentRound_unfold [OF assms(1,2)] Let_def rw)
       (intro conjI impI rows_evolve_endGame f s2 pre, simp add: same_tokens_def)
qed

lemma release_trigger_log:
  assumes "participants_wf s" "getGame s g = Some gm" "status gm = in_progress"
  shows "ConsoleLog (AllActiveHaveBid_EndingRound g) \<in> set (snd (handleBuzzerRelease s g u h))
     \<longleftrightarrow> (\<exists>p. getParticipant s g u = Some p \<and> \<not> isEliminated p \<and> \<not> hasBidThisRound p)
         \<and> (\<forall>q\<in>set (getParticipantsByGame s g).
                \<not> isEliminated q \<and> userId q \<noteq> u \<longrightarrow> hasBidThisRound q)"
proof (cases "\<exists>p. getParticipant s g u = Some p \<and> \<not> isEliminated p \<and> \<not> hasBidThisRound p")
  case False
  then have "handleBuzzerRelease s g u h = (s, [])"
    by (auto simp: handleBuzzerRelease_def split: option.splits)
  with False show ?thesis by simp
next
  case True
  then obtain p where p: "getParticipant s g u = Some p" "\<not> isEliminated p" "\<not> hasBidThisRound p"
    by blast
  note acc = assms(2,3) p
  show ?thesis
    using True release_resolves_iff [OF assms(1) acc, of h]
    by (simp add: handleBuzzerRelease_accepted [OF acc] Let_def)
qed

lemma release_round_after:
  assumes "getGame s g = Some gm" "status gm = in_progress"
  shows "map_option currentRound (getGame (fst (handleBuzzerRelease s g u h)) g)
     = Some (if ConsoleLog (AllActiveHaveBid_EndingRound g)
                  \<in> set (snd (handleBuzzerRelease s g u h))
             then currentRound gm + 1 else currentRound gm)"
proof (cases "\<exists>p. getParticipant s g u = Some p \<and> \<not> isEliminated p \<and> \<not> hasBidThisRound p")
  case False
  then have "handleBuzzerRelease s g u h = (s, [])"
    by (auto simp: handleBuzzerRelease_def split: option.splits)
  with assms show ?thesis by simp
next
  case True
  then obtain p where p: "getParticipant s g u = Some p" "\<not> isEliminated p" "\<not> hasBidThisRound p"
    by blast
  note acc = assms p
  have g2: "getGame (recordBid s g u h) g = Some gm" using assms(1) by simp
  show ?thesis
    using assms(1)
    by (simp add: handleBuzzerRelease_accepted [OF acc] Let_def
        getGame_endCurrentRound [OF g2 assms(2)])
qed

lemma release_all_eliminated:
  assumes "participants_wf s" "list_all isEliminated (getParticipantsByGame s g)"
  shows "handleBuzzerRelease s g u h = (s, [])"
proof (cases "getParticipant s g u")
  case None
  then show ?thesis by (simp add: release_without_active_row_dropped)
next
  case (Some p)
  with wf_row_in_game [OF assms(1) Some] assms(2) have "isEliminated p"
    by (auto simp: list_all_iff)
  with Some show ?thesis by (simp add: release_without_active_row_dropped)
qed

text \<open>
  Claim C2 (as amended). For a game in status \<open>in_progress\<close>, \<open>handleBuzzerRelease\<close> goes on to
  resolve the round (it logs that all active players have bid and calls
  \<open>endCurrentRound\<close>) if and only if the release is accepted, that is the sender has a
  non-eliminated row that has not bid this round, and with that bid recorded every
  non-eliminated participant of the game has bid; the game's \<open>currentRound\<close> then advances by
  one, and otherwise stays as it is. When every participant of the game is eliminated no
  release is accepted: the handler changes nothing and resolves nothing. \<open>endCurrentRound\<close>
  itself, run when no non-eliminated participant has bid, records no winner, leaves every
  row's \<open>tokensWon\<close> as it is and advances \<open>currentRound\<close> by one. Along every run of the
  server the round numbers resolved for the game are strictly increasing, so no round
  number is resolved twice.
\<close>

theorem round_resolves_when_all_active_have_bid:
  assumes "participants_wf s" "getGame s g = Some gm" "status gm = in_progress"
  shows "(ConsoleLog (AllActiveHaveBid_EndingRound g) \<in> set (snd (handleBuzzerRelease s g u h))
          \<longleftrightarrow> (\<exists>p. getParticipant s g u = Some p \<and> \<not> isEliminated p \<and> \<not> hasBidThisRound p)
              \<and> (\<forall>q\<in>set (getParticipantsByGame s g).
                     \<not> isEliminated q \<and> userId q \<noteq> u \<longrightarrow> hasBidThisRound q))
     \<and> map_option currentRound (getGame (fst (handleBuzzerRelease s g u h)) g)
         = Some (if ConsoleLog (AllActiveHaveBid_EndingRound g)
                      \<in> set (snd (handleBuzzerRelease s g u h))
                 then currentRound gm + 1 else currentRound gm)
     \<and> (list_all isEliminated (getParticipantsByGame s g)
          \<longrightarrow> handleBuzzerRelease s g u h = (s, []))
     \<and> (filter (\<lambda>p. \<not> isEliminated p \<and> hasBidThisRound p) (getParticipantsByGame s g) = []
          \<longrightarrow> map_option roundWinnerId (getGame (fst (endCurrentRound s g)) g) = Some None
              \<and> map_option currentRound (getGame (fst (endCurrentRound s g)) g)
                  = Some (currentRound gm + 1)
              \<and> (\<forall>g' u' p. getParticipant s g' u' = Some p
                    \<longrightarrow> (\<exists>p'. getParticipant (fst (endCurrentRound s g)) g' u' = Some p'
                              \<and> tokensWon p' = tokensWon p)))
     \<and> (\<forall>as. sorted_wrt (<) (resolvedRounds g (snd (run s as))))"
proof (intro conjI impI allI)
  show "ConsoleLog (AllActiveHaveBid_EndingRound g) \<in> set (snd (handleBuzzerRelease s g u h))
          \<longleftrightarrow> (\<exists>p. getParticipant s g u = Some p \<and> \<not> isEliminated p \<and> \<not> hasBidThisRound p)
              \<and> (\<forall>q\<in>set (getParticipantsByGame s g).
                     \<not> isEliminated q \<and> userId q \<noteq> u \<longrightarrow> hasBidThisRound q)"
    by (rule release_trigger_log [OF assms])
  show "map_option currentRound (getGame (fst (handleBuzzerRelease s g u h)) g)
         = Some (if ConsoleLog (AllActiveHaveBid_EndingRound g)
                      \<in> set (snd (handleBuzzerRelease s g u h))
                 then currentRound gm + 1 else currentRound gm)"
    by (rule release_round_after [OF assms(2,3)])
  show "handleBuzzerRelease s g u h = (s, [])"
    if "list_all isEliminated (getParticipantsByGame s g)"
    by (rule release_all_eliminated [OF assms(1) that])
  show "sorted_wrt (<) (resolvedRounds g (snd (run s as)))" for as
    using run_resolution [of g s as] by simp
next
  assume nb: "filter (\<lambda>p. \<not> isEliminated p \<and> hasBidThisRound p) (getParticipantsByGame s g) = []"
  note E = endCurrentRound_no_bidders [OF assms(2,3) nb]
  show "map_option roundWinnerId (getGame (fst (endCurrentRound s g)) g) = Some None"
    by (rule E(1))
  show "map_option currentRound (getGame (fst (endCurrentRound s g)) g)
          = Some (currentRound gm + 1)"
    by (rule E(2))
  fix g' u' p assume "getParticipant s g' u' = Some p"
  with E(3) show "\<exists>p'. getParticipant (fst (endCurrentRound s g)) g' u' = Some p'
                     \<and> tokensWon p' = tokensWon p"
    unfolding rows_evolve_def same_tokens_def by blast
qed

theorem round_resolves_when_all_active_have_bid_witness:
  "participants_wf last_bid_pending
   \<and> getGame last_bid_pending 1 = Some (demo_game in_progress)
   \<and> ConsoleLog (AllActiveHaveBid_EndingRound 1)
        \<in> set (snd (handleBuzzerRelease last_bid_pending 1 1 4000))
   \<and> map_option currentRound (getGame (fst (handleBuzzerRelease last_bid_pending 1 1 4000)) 1)
        = Some 2
   \<and> sorted_wrt (<) (resolvedRounds 1 (snd (run last_bid_pending
        [Msg_BUZZER_RELEASE 1 1 4000, Msg_BUZZER_RELEASE 1 2 1000, Msg_BUZZER_RELEASE 1 1 500])))
   \<and> participants_wf all_out
   \<and> handleBuzzerRelease all_out 1 1 2000 = (all_out, [])
   \<and> map_option roundWinnerId (getGame (fst (endCurrentRound all_out 1)) 1) = Some None
   \<and> map_option currentRound (getGame (fst (endCurrentRound all_out 1)) 1) = Some 2"
proof -
  have wf: "participants_wf last_bid_pending"
    by (simp add: last_bid_pending_def demo_defs participants_wf_def)
  have g: "getGame last_bid_pending 1 = Some (demo_game in_progress)"
    by (simp add: last_bid_pending_def demo_defs getGame_def)
  have st: "status (demo_game in_progress) = in_progress" by (simp add: demo_defs)
  have cr: "currentRound (demo_game in_progress) = 1" by (simp add: demo_defs)
  note T = round_resolves_when_all_active_have_bid [OF wf g st, of 1 4000]
  have rhs: "(\<exists>p. getParticipant last_bid_pending 1 1 = Some p
                \<and> \<not> isEliminated p \<and> \<not> hasBidThisRound p)
             \<and> (\<forall>q\<in>set (getParticipantsByGame last_bid_pending 1).
                   \<not> isEliminated q \<and> userId q \<noteq> 1 \<longrightarrow> hasBidThisRound q)"
    by (simp add: last_bid_pending_def demo_defs getParticipant_def getParticipantsByGame_def)
  from T [THEN conjunct1] rhs
  have log: "ConsoleLog (AllActiveHaveBid_EndingRound 1)
               \<in> set (snd (handleBuzzerRelease last_bid_pending 1 1 4000))"
    by simp
  from T [THEN conjunct2, THEN conjunct1] log cr
  have round: "map_option currentRound
                 (getGame (fst (handleBuzzerRelease last_bid_pending 1 1 4000)) 1) = Some 2"
    by simp
  note runs = T [THEN conjunct2, THEN conjunct2, THEN conjunct2, THEN conjunct2, rule_format]
  have wf': "participants_wf all_out"
    by (simp add: all_out_def demo_defs participants_wf_def)
  have g': "getGame all_out 1 = Some (demo_game in_progress)"
    by (simp add: all_out_def demo_defs getGame_def)
  note T' = round_resolves_when_all_active_have_bid [OF wf' g' st, of 1 2000]
  have elim: "list_all isEliminated (getParticipantsByGame all_out 1)"
    by (simp add: all_out_def demo_defs getParticipantsByGame_def)
  have nb: "filter (\<lambda>p. \<not> isEliminated p \<and> hasBidThisRound p) (getParticipantsByGame all_out 1) = []"
    by (simp add: all_out_def demo_defs getParticipantsByGame_def)
  note drop = T' [THEN conjunct2, THEN conjunct2, THEN conjunct1, rule_format, OF elim]
  note endr = T' [THEN conjunct2, THEN conjunct2, THEN conjunct2, THEN conjunct1, rule_format, OF nb]
  from endr cr have "map_option roundWinnerId (getGame (fst (endCurrentRound all_out 1)) 1) = Some None"
    and "map_option currentRound (getGame (fst (endCurrentRound all_out 1)) 1) = Some 2"
    by simp_all
  with wf g log round runs wf' drop show ?thesis by blast
qed

text \<open>
  Claim C2 as stated fails. In a running game whose participants are all eliminated, every
  non-eliminated participant has bid (there is none), also after a \<open>BUZZER_RELEASE\<close> has been
  processed; yet the release does not resolve the round: the handler logs no resolution,
  and \<open>currentRound\<close> is still 1.
\<close>

theorem release_with_all_eliminated_resolves_nothing:
  "map_option status (getGame all_out 1) = Some in_progress
   \<and> map_option currentRound (getGame all_out 1) = Some 1
   \<and> list_all isEliminated (getParticipantsByGame all_out 1)
   \<and> list_all (\<lambda>q. isEliminated q \<or> hasBidThisRound q)
        (getParticipantsByGame (fst (handleBuzzerRelease all_out 1 1 2000)) 1)
   \<and> ConsoleLog (AllActiveHaveBid_EndingRound 1)
        \<notin> set (snd (handleBuzzerRelease all_out 1 1 2000))
   \<and> map_option currentRound (getGame (fst (handleBuzzerRelease all_out 1 1 2000)) 1) = Some 1"
  by (simp add: all_out_def demo_defs storage_defs route_defs)

end
